theory Spec2Isabelle
  imports Main "HOL-Library.Word" "HOL-Library.List_Lexorder" "HOL-Library.Char_ord"
begin

section \<open>Errors, time, bytes\<close>

text \<open>
  Go's \<open>error\<close> values. The first four are the errno values the file-system calls of
  this package can meet on a tree of files and directories; \<open>JSONError\<close> is an error of
  \<open>encoding/json\<close>; \<open>Wrapped msg err\<close> is \<open>fmt.Errorf(msg + ": %w", err)\<close>;
  \<open>Panic\<close> is a run-time panic.
\<close>

datatype error =
    ENOENT
  | ENOTDIR
  | EISDIR
  | ENOTEMPTY
  | JSONError string
  | Wrapped string error
  | Panic string

text \<open>
  \<open>time.Time\<close> is an instant and \<open>time.Duration\<close> a signed span, both counted in
  nanoseconds. \<open>Time.Add\<close> is addition and \<open>Time.After\<close> the strict order.
\<close>

type_synonym time = int
type_synonym duration = int
type_synonym bytes = string

definition After :: "time \<Rightarrow> time \<Rightarrow> bool" where
  "After t u = (u < t)"

section \<open>Paths\<close>

definition is_sep :: "char \<Rightarrow> bool" where
  "is_sep c = (c = CHR ''/'')"

text \<open>
  \<open>filepath.Join dir elem\<close>: the non-empty elements joined by the separator. The final
  \<open>Clean\<close> of the library is not applied to the string; the file system below resolves
  empty, \<open>.\<close> and \<open>..\<close> components itself, so both strings name the same file.
\<close>

definition filepath_Join :: "string \<Rightarrow> string \<Rightarrow> string" where
  "filepath_Join d e = (if d = [] then e else if e = [] then d else d @ ''/'' @ e)"

text \<open>\<open>filepath.Base\<close>, which is also the \<open>Name()\<close> of the \<open>FileInfo\<close> of a path.\<close>

definition filepath_Base :: "string \<Rightarrow> string" where
  "filepath_Base p =
     (if p = [] then ''.''
      else let q = dropWhile is_sep (rev p)
           in if q = [] then ''/'' else rev (takeWhile (\<lambda>c. \<not> is_sep c) q))"

definition strings_HasSuffix :: "string \<Rightarrow> string \<Rightarrow> bool" where
  "strings_HasSuffix s suffix =
     (length suffix \<le> length s \<and> drop (length s - length suffix) s = suffix)"

fun split_path :: "string \<Rightarrow> string list" where
  "split_path [] = [[]]"
| "split_path (c # cs) =
     (if is_sep c then [] # split_path cs
      else (case split_path cs of [] \<Rightarrow> [[c]] | x # xs \<Rightarrow> (c # x) # xs))"

text \<open>
  Path resolution drops empty and \<open>.\<close> components and lets \<open>..\<close> step back to the parent
  (at the root it stays at the root). The first argument is the stack of components
  resolved so far, innermost first.
\<close>

fun resolve_dots :: "string list \<Rightarrow> string list \<Rightarrow> string list" where
  "resolve_dots st [] = rev st"
| "resolve_dots st (c # cs) =
     (if c = [] \<or> c = ''.'' then resolve_dots st cs
      else if c = ''..'' then resolve_dots (tl st) cs
      else resolve_dots (c # st) cs)"

definition path_components :: "string \<Rightarrow> string list" where
  "path_components p = resolve_dots [] (split_path p)"

section \<open>The file system\<close>

text \<open>
  The file system is a tree: a regular file holds its bytes, a directory its entries by
  name. The root of the tree stands for the directory every path is resolved from.
\<close>

datatype fsnode = File bytes | Dir "(string \<times> fsnode) list"

fun is_Dir :: "fsnode \<Rightarrow> bool" where
  "is_Dir (Dir es) = True"
| "is_Dir (File b) = False"

fun resolve :: "fsnode \<Rightarrow> string list \<Rightarrow> error + fsnode" where
  "resolve nd [] = Inr nd"
| "resolve (File b) (c # cs) = Inl ENOTDIR"
| "resolve (Dir es) (c # cs) =
     (case map_of es c of None \<Rightarrow> Inl ENOENT | Some ch \<Rightarrow> resolve ch cs)"

fun put_entry :: "string \<Rightarrow> fsnode \<Rightarrow> (string \<times> fsnode) list \<Rightarrow> (string \<times> fsnode) list" where
  "put_entry n nd [] = [(n, nd)]"
| "put_entry n nd ((m, x) # es) =
     (if m = n then (n, nd) # es else (m, x) # put_entry n nd es)"

definition del_entry :: "string \<Rightarrow> (string \<times> fsnode) list \<Rightarrow> (string \<times> fsnode) list" where
  "del_entry n es = filter (\<lambda>e. fst e \<noteq> n) es"

text \<open>
  \<open>modify_at root cs g\<close> walks to the directory that holds the last component of \<open>cs\<close> and
  lets \<open>g\<close> decide, from the entry found there (if any), the entry to leave (if any).
\<close>

fun modify_at :: "fsnode \<Rightarrow> string list \<Rightarrow> (fsnode option \<Rightarrow> error + fsnode option) \<Rightarrow> error + fsnode" where
  "modify_at nd [] g = Inl EISDIR"
| "modify_at (File b) (c # cs) g = Inl ENOTDIR"
| "modify_at (Dir es) [c] g =
     (case g (map_of es c) of
        Inl err \<Rightarrow> Inl err
      | Inr None \<Rightarrow> Inr (Dir (del_entry c es))
      | Inr (Some nd) \<Rightarrow> Inr (Dir (put_entry c nd es)))"
| "modify_at (Dir es) (c # c' # cs) g =
     (case map_of es c of
        None \<Rightarrow> Inl ENOENT
      | Some ch \<Rightarrow> (case modify_at ch (c' # cs) g of
                     Inl err \<Rightarrow> Inl err
                   | Inr ch' \<Rightarrow> Inr (Dir (put_entry c ch' es))))"

text \<open>\<open>os.Create\<close>: open for writing, creating the file if absent and truncating it.\<close>

fun create_entry :: "fsnode option \<Rightarrow> error + fsnode option" where
  "create_entry None = Inr (Some (File []))"
| "create_entry (Some (File b)) = Inr (Some (File []))"
| "create_entry (Some (Dir es)) = Inl EISDIR"

definition os_Create :: "fsnode \<Rightarrow> string \<Rightarrow> error + fsnode" where
  "os_Create root p = modify_at root (path_components p) create_entry"

text \<open>Writing through the handle that \<open>os.Create\<close> returned.\<close>

fun write_entry :: "bytes \<Rightarrow> fsnode option \<Rightarrow> error + fsnode option" where
  "write_entry b (Some (File old)) = Inr (Some (File (old @ b)))"
| "write_entry b (Some (Dir es)) = Inl EISDIR"
| "write_entry b None = Inl ENOENT"

definition file_Write :: "fsnode \<Rightarrow> string \<Rightarrow> bytes \<Rightarrow> error + fsnode" where
  "file_Write root p b = modify_at root (path_components p) (write_entry b)"

text \<open>\<open>os.Remove\<close>: removes the named file or empty directory.\<close>

fun remove_entry :: "fsnode option \<Rightarrow> error + fsnode option" where
  "remove_entry None = Inl ENOENT"
| "remove_entry (Some (File b)) = Inr None"
| "remove_entry (Some (Dir [])) = Inr None"
| "remove_entry (Some (Dir (e # es))) = Inl ENOTEMPTY"

definition os_Remove :: "fsnode \<Rightarrow> string \<Rightarrow> fsnode \<times> error option" where
  "os_Remove root p =
     (case modify_at root (path_components p) remove_entry of
        Inl err \<Rightarrow> (root, Some err)
      | Inr root' \<Rightarrow> (root', None))"

text \<open>\<open>os.MkdirAll\<close>: creates the directory and every missing parent.\<close>

fun mkdir_all :: "fsnode \<Rightarrow> string list \<Rightarrow> fsnode \<times> error option" where
  "mkdir_all (File b) cs = (File b, Some ENOTDIR)"
| "mkdir_all (Dir es) [] = (Dir es, None)"
| "mkdir_all (Dir es) (c # cs) =
     (case map_of es c of
        None \<Rightarrow> (case mkdir_all (Dir []) cs of (ch, r) \<Rightarrow> (Dir (put_entry c ch es), r))
      | Some ch \<Rightarrow> (case mkdir_all ch cs of (ch', r) \<Rightarrow> (Dir (put_entry c ch' es), r)))"

definition os_MkdirAll :: "fsnode \<Rightarrow> string \<Rightarrow> fsnode \<times> error option" where
  "os_MkdirAll root p = mkdir_all root (path_components p)"

text \<open>\<open>os.FileInfo\<close>, as far as the package reads it; \<open>Size\<close> is an \<open>int64\<close>.\<close>

record FileInfo =
  Name :: string
  IsDir :: bool
  Size :: "64 word"

fun node_size :: "fsnode \<Rightarrow> nat" where
  "node_size (File b) = length b"
| "node_size (Dir es) = 0"

definition os_Lstat :: "fsnode \<Rightarrow> string \<Rightarrow> error + FileInfo" where
  "os_Lstat root p =
     (case resolve root (path_components p) of
        Inl err \<Rightarrow> Inl err
      | Inr nd \<Rightarrow> Inr \<lparr>Name = filepath_Base p, IsDir = is_Dir nd, Size = of_nat (node_size nd)\<rparr>)"

text \<open>\<open>readDirNames\<close> of \<open>path/filepath\<close>: the names of a directory's entries, sorted.\<close>

definition readDirNames :: "fsnode \<Rightarrow> string \<Rightarrow> error + string list" where
  "readDirNames root p =
     (case resolve root (path_components p) of
        Inl err \<Rightarrow> Inl err
      | Inr (File b) \<Rightarrow> Inl ENOTDIR
      | Inr (Dir es) \<Rightarrow> Inr (sort (map fst es)))"

text \<open>
  \<open>filepath.Walk\<close>. The walk function sees the file system as the calls before it left it
  and may change it, together with whatever its closure captures (\<open>'a\<close>). A walk function
  that keeps creating directories never returns, so the recursion carries fuel, one unit
  per directory level; \<open>None\<close> is a walk that ran out of it. The walk functions of this
  package return no \<open>SkipDir\<close>, which is left out.
\<close>

type_synonym 'a WalkFunc =
  "string \<Rightarrow> FileInfo option \<Rightarrow> error option \<Rightarrow> fsnode \<times> 'a \<Rightarrow> (fsnode \<times> 'a) \<times> error option"

fun walk :: "nat \<Rightarrow> 'a WalkFunc \<Rightarrow> string \<Rightarrow> FileInfo \<Rightarrow> fsnode \<times> 'a
               \<Rightarrow> ((fsnode \<times> 'a) \<times> error option) option"
and walk_names :: "nat \<Rightarrow> 'a WalkFunc \<Rightarrow> string \<Rightarrow> string list \<Rightarrow> fsnode \<times> 'a
               \<Rightarrow> ((fsnode \<times> 'a) \<times> error option) option" where
  "walk 0 walkFn path info s = None"
| "walk (Suc n) walkFn path info s =
     (if \<not> IsDir info then Some (walkFn path (Some info) None s)
      else (case readDirNames (fst s) path of
              Inl err \<Rightarrow> Some (walkFn path (Some info) (Some err) s)
            | Inr names \<Rightarrow>
                (case walkFn path (Some info) None s of
                   (s1, Some err1) \<Rightarrow> Some (s1, Some err1)
                 | (s1, None) \<Rightarrow> walk_names n walkFn path names s1)))"
| "walk_names n walkFn path [] s = Some (s, None)"
| "walk_names n walkFn path (name # names) s =
     (case os_Lstat (fst s) (filepath_Join path name) of
        Inl err \<Rightarrow>
          (case walkFn (filepath_Join path name) None (Some err) s of
             (s1, Some err1) \<Rightarrow> Some (s1, Some err1)
           | (s1, None) \<Rightarrow> walk_names n walkFn path names s1)
      | Inr fileInfo \<Rightarrow>
          (case walk n walkFn (filepath_Join path name) fileInfo s of
             None \<Rightarrow> None
           | Some (s1, Some err1) \<Rightarrow> Some (s1, Some err1)
           | Some (s1, None) \<Rightarrow> walk_names n walkFn path names s1))"

definition filepath_Walk :: "nat \<Rightarrow> string \<Rightarrow> 'a WalkFunc \<Rightarrow> fsnode \<times> 'a
               \<Rightarrow> ((fsnode \<times> 'a) \<times> error option) option" where
  "filepath_Walk n root_path walkFn s =
     (case os_Lstat (fst s) root_path of
        Inl err \<Rightarrow> Some (walkFn root_path None (Some err) s)
      | Inr info \<Rightarrow> walk n walkFn root_path info s)"

section \<open>The cache\<close>

subsection \<open>Data\<close>

text \<open>
  \<open>cacheItem\<close>: the value is an \<open>interface{}\<close> (any Go value, \<open>'v\<close>), the expiration a
  pointer that is nil for an item that never expires.
\<close>

record 'v cacheItem =
  Value :: 'v
  Expiration :: "time option"

record 'v CacheStore =
  filePath :: string
  data :: "string \<rightharpoonup> 'v cacheItem"

record 'v Cacher =
  dir :: string
  stores :: "string \<rightharpoonup> 'v CacheStore"
  ext :: string

text \<open>The package variable \<open>Ext\<close>; nothing in the package assigns it.\<close>

definition Ext :: string where
  "Ext = ''.cache''"

text \<open>
  \<open>encoding/json\<close> is a parameter of the model: \<open>Marshal\<close> is \<open>json.Marshal\<close> on an item's
  value, \<open>Encode\<close> and \<open>Decode\<close> are the encoder and decoder on a store's whole map. Decoding
  into the caller's variable is a parameter of each call, \<open>json.Unmarshal\<close> at the caller's
  type \<open>'o\<close>: from the bytes and the variable's old content to its new content and an error.
\<close>

record 'v json =
  Marshal :: "'v \<Rightarrow> error + bytes"
  Encode :: "(string \<rightharpoonup> 'v cacheItem) \<Rightarrow> error + bytes"
  Decode :: "bytes \<Rightarrow> error + (string \<rightharpoonup> 'v cacheItem)"

type_synonym 'o unmarshal = "bytes \<Rightarrow> 'o \<Rightarrow> 'o \<times> error option"

text \<open>The state an operation runs in: the file system and the \<open>Cacher\<close> it is called on.\<close>

record 'v world =
  fs :: fsnode
  cacher :: "'v Cacher"

text \<open>
  A \<open>*CacheStore\<close> obtained from \<open>getStore\<close> is the object the registry holds under the
  bucket's name; a write through the pointer is a write to that registry entry.
\<close>

definition put_store :: "string \<Rightarrow> 'v CacheStore \<Rightarrow> 'v world \<Rightarrow> 'v world" where
  "put_store name store w =
     w\<lparr>cacher := (cacher w)\<lparr>stores := (stores (cacher w))(name \<mapsto> store)\<rparr>\<rparr>"

definition expired :: "time \<Rightarrow> 'v cacheItem \<Rightarrow> bool" where
  "expired now item =
     (case Expiration item of None \<Rightarrow> False | Some expiration \<Rightarrow> After now expiration)"

subsection \<open>Constructors\<close>

definition NewCacher :: "string \<Rightarrow> fsnode \<Rightarrow> 'v world" where
  "NewCacher d root =
     \<lparr>fs = fst (os_MkdirAll root d),
      cacher = \<lparr>dir = d, stores = Map.empty, ext = Ext\<rparr>\<rparr>"

definition NewCacherWithExt :: "string \<Rightarrow> string \<Rightarrow> fsnode \<Rightarrow> 'v world" where
  "NewCacherWithExt d e root =
     \<lparr>fs = fst (os_MkdirAll root d),
      cacher = \<lparr>dir = d, stores = Map.empty, ext = e\<rparr>\<rparr>"

subsection \<open>Persistence\<close>

definition loadFromFile :: "'v json \<Rightarrow> 'v CacheStore \<Rightarrow> fsnode \<Rightarrow> 'v CacheStore \<times> error option" where
  "loadFromFile js cs root =
     (case resolve root (path_components (filePath cs)) of
        Inl err \<Rightarrow>
          if err = ENOENT then (cs, None)
          else (cs, Some (Wrapped ''filecache: failed to open cache file'' err))
      | Inr (Dir es) \<Rightarrow> (cs, Some (Wrapped ''filecache: failed to decode cache data'' EISDIR))
      | Inr (File b) \<Rightarrow>
          (case Decode js b of
             Inl err \<Rightarrow> (cs, Some (Wrapped ''filecache: failed to decode cache data'' err))
           | Inr d \<Rightarrow> (cs\<lparr>data := data cs ++ d\<rparr>, None)))"

definition saveToFile :: "'v json \<Rightarrow> 'v CacheStore \<Rightarrow> fsnode \<Rightarrow> fsnode \<times> error option" where
  "saveToFile js cs root =
     (case os_Create root (filePath cs) of
        Inl err \<Rightarrow> (root, Some (Wrapped ''filecache: failed to create cache file'' err))
      | Inr root1 \<Rightarrow>
          (case Encode js (data cs) of
             Inl err \<Rightarrow> (root1, Some (Wrapped ''filecache: failed to encode cache data'' err))
           | Inr b \<Rightarrow>
               (case file_Write root1 (filePath cs) b of
                  Inl err \<Rightarrow> (root1, Some (Wrapped ''filecache: failed to encode cache data'' err))
                | Inr root2 \<Rightarrow> (root2, None))))"

subsection \<open>The registry\<close>

definition getStore :: "'v json \<Rightarrow> string \<Rightarrow> 'v world \<Rightarrow> 'v world \<times> (error + 'v CacheStore)" where
  "getStore js name w =
     (case stores (cacher w) name of
        Some store \<Rightarrow> (w, Inr store)
      | None \<Rightarrow>
          (case loadFromFile js
                  \<lparr>filePath = filepath_Join (dir (cacher w)) (name @ ''.cache''),
                   data = Map.empty\<rparr> (fs w) of
             (store, Some err) \<Rightarrow> (w, Inl err)
           | (store, None) \<Rightarrow> (put_store name store w, Inr store)))"

subsection \<open>Operations on a bucket\<close>

text \<open>Each operation takes the reading \<open>now\<close> of \<open>time.Now()\<close> where it makes one.\<close>

definition Set :: "'v json \<Rightarrow> time \<Rightarrow> string \<Rightarrow> duration \<Rightarrow> string \<Rightarrow> 'v \<Rightarrow> 'v world
               \<Rightarrow> 'v world \<times> error option" where
  "Set js now bucketName ttl key val w =
     (case getStore js bucketName w of
        (w1, Inl err) \<Rightarrow> (w1, Some err)
      | (w1, Inr store) \<Rightarrow>
          (let store' = store\<lparr>data := (data store)(key \<mapsto> \<lparr>Value = val, Expiration = Some (now + ttl)\<rparr>)\<rparr>
           in case saveToFile js store' (fs w1) of
                (root', r) \<Rightarrow> (put_store bucketName store' (w1\<lparr>fs := root'\<rparr>), r)))"

text \<open>
  The loop of \<open>Range\<close>. Go yields the keys of a map in an order of its own choosing and the
  loop reads the clock at every entry: the list gives the keys in the order yielded, each
  with the clock's reading there. A key no longer in the map is not yielded. The visitor
  \<open>f\<close> is a closure; \<open>'a\<close> is what it captures. The third component of the result is the
  error the loop returned with, if it did.
\<close>

fun Range_loop :: "'v json \<Rightarrow> 'o unmarshal \<Rightarrow> 'o \<Rightarrow> (string \<Rightarrow> 'o \<Rightarrow> 'a \<Rightarrow> bool \<times> 'a)
               \<Rightarrow> (string \<times> time) list \<Rightarrow> (string \<rightharpoonup> 'v cacheItem) \<Rightarrow> 'a
               \<Rightarrow> (string \<rightharpoonup> 'v cacheItem) \<times> 'a \<times> error option" where
  "Range_loop js um zero f [] d a = (d, a, None)"
| "Range_loop js um zero f ((key, now) # rest) d a =
     (case d key of
        None \<Rightarrow> Range_loop js um zero f rest d a
      | Some item \<Rightarrow>
          if expired now item then Range_loop js um zero f rest (d(key := None)) a
          else (case Marshal js (Value item) of
                  Inl err \<Rightarrow> (d, a, Some err)
                | Inr itemVal \<Rightarrow>
                    (case um itemVal zero of
                       (out, Some err) \<Rightarrow> (d, a, Some err)
                     | (out, None) \<Rightarrow>
                         (case f key out a of
                            (False, a') \<Rightarrow> (d, a', None)
                          | (True, a') \<Rightarrow> Range_loop js um zero f rest d a'))))"

definition Range_c :: "'v json \<Rightarrow> 'o unmarshal \<Rightarrow> 'o \<Rightarrow> (string \<times> time) list \<Rightarrow> string
               \<Rightarrow> (string \<Rightarrow> 'o \<Rightarrow> 'a \<Rightarrow> bool \<times> 'a) \<Rightarrow> 'a \<Rightarrow> 'v world
               \<Rightarrow> 'v world \<times> 'a \<times> error option" where
  "Range_c js um zero order bucketName f a w =
     (case getStore js bucketName w of
        (w1, Inl err) \<Rightarrow> (w1, a, Some err)
      | (w1, Inr store) \<Rightarrow>
          (case Range_loop js um zero f order (data store) a of
             (d, a', Some err) \<Rightarrow> (put_store bucketName (store\<lparr>data := d\<rparr>) w1, a', Some err)
           | (d, a', None) \<Rightarrow>
               (case saveToFile js (store\<lparr>data := d\<rparr>) (fs w1) of
                  (root', r) \<Rightarrow> (put_store bucketName (store\<lparr>data := d\<rparr>) (w1\<lparr>fs := root'\<rparr>), a', r))))"

definition Get :: "'v json \<Rightarrow> 'o unmarshal \<Rightarrow> time \<Rightarrow> string \<Rightarrow> string \<Rightarrow> 'o \<Rightarrow> 'v world
               \<Rightarrow> 'v world \<times> 'o \<times> bool \<times> error option" where
  "Get js um now bucketName key out w =
     (case getStore js bucketName w of
        (w1, Inl err) \<Rightarrow> (w1, out, False, Some err)
      | (w1, Inr store) \<Rightarrow>
          (case data store key of
             None \<Rightarrow> (w1, out, False, None)
           | Some item \<Rightarrow>
               if expired now item then
                 (let store' = store\<lparr>data := (data store)(key := None)\<rparr>
                  in case saveToFile js store' (fs w1) of
                       (root', r) \<Rightarrow> (put_store bucketName store' (w1\<lparr>fs := root'\<rparr>), out, False, None))
               else (case Marshal js (Value item) of
                       Inl err \<Rightarrow> (w1, out, False, Some err)
                     | Inr b \<Rightarrow> (case um b out of (out', r) \<Rightarrow> (w1, out', True, r)))))"

text \<open>
  \<open>GetAll\<close>: the closure (\<open>GetAll_visitor\<close>) stores every pair it is given in \<open>data\<close> and
  never stops the walk.
  The store saved at the end is the one the pointer taken at the start refers to.
\<close>

definition GetAll_visitor :: "string \<Rightarrow> 'o \<Rightarrow> (string \<rightharpoonup> 'o) \<Rightarrow> bool \<times> (string \<rightharpoonup> 'o)" where
  "GetAll_visitor key val m = (True, m(key \<mapsto> val))"

definition GetAll :: "'v json \<Rightarrow> 'o unmarshal \<Rightarrow> 'o \<Rightarrow> (string \<times> time) list \<Rightarrow> string \<Rightarrow> 'v world
               \<Rightarrow> 'v world \<times> (string \<rightharpoonup> 'o) option \<times> error option" where
  "GetAll js um zero order bucketName w =
     (case getStore js bucketName w of
        (w1, Inl err) \<Rightarrow> (w1, None, Some err)
      | (w1, Inr store) \<Rightarrow>
          (case Range_c js um zero order bucketName GetAll_visitor Map.empty w1 of
             (w2, m, Some err) \<Rightarrow> (w2, None, Some err)
           | (w2, m, None) \<Rightarrow>
               (case saveToFile js (case stores (cacher w2) bucketName of
                                       None \<Rightarrow> store | Some store2 \<Rightarrow> store2) (fs w2) of
                  (root', r) \<Rightarrow> (w2\<lparr>fs := root'\<rparr>, Some m, r))))"





fun CleanBucket_loop :: "(string \<times> time) list \<Rightarrow> (string \<rightharpoonup> 'v cacheItem)
               \<Rightarrow> (string \<rightharpoonup> 'v cacheItem)" where
  "CleanBucket_loop [] d = d"
| "CleanBucket_loop ((key, now) # rest) d =
     (case d key of
        None \<Rightarrow> CleanBucket_loop rest d
      | Some item \<Rightarrow>
          if expired now item then CleanBucket_loop rest (d(key := None))
          else CleanBucket_loop rest d)"


definition SetFrozen :: "'v json \<Rightarrow> string \<Rightarrow> string \<Rightarrow> 'v \<Rightarrow> 'v world \<Rightarrow> 'v world \<times> error option" where
  "SetFrozen js bucketName key val w =
     (case getStore js bucketName w of
        (w1, Inl err) \<Rightarrow> (w1, Some err)
      | (w1, Inr store) \<Rightarrow>
          (let store' = store\<lparr>data := (data store)(key \<mapsto> \<lparr>Value = val, Expiration = None\<rparr>)\<rparr>
           in case saveToFile js store' (fs w1) of
                (root', r) \<Rightarrow> (put_store bucketName store' (w1\<lparr>fs := root'\<rparr>), r)))"

definition GetFrozen :: "'v json \<Rightarrow> 'o unmarshal \<Rightarrow> string \<Rightarrow> string \<Rightarrow> 'o \<Rightarrow> 'v world
               \<Rightarrow> 'v world \<times> 'o \<times> bool \<times> error option" where
  "GetFrozen js um bucketName key out w =
     (case getStore js bucketName w of
        (w1, Inl err) \<Rightarrow> (w1, out, False, Some err)
      | (w1, Inr store) \<Rightarrow>
          (case data store key of
             None \<Rightarrow> (w1, out, False, None)
           | Some item \<Rightarrow>
               (case Marshal js (Value item) of
                  Inl err \<Rightarrow> (w1, out, False, Some err)
                | Inr b \<Rightarrow> (case um b out of (out', r) \<Rightarrow> (w1, out', True, r)))))"

subsection \<open>Operations on the directory\<close>

text \<open>
  The walk function of \<open>RemoveAllBy\<close>. The filter is a closure over \<open>'a\<close>. \<open>Walk\<close> passes a nil
  \<open>info\<close> only together with an error; reading a nil \<open>info\<close> would panic.
\<close>

definition RemoveAllBy_fn :: "string \<Rightarrow> (string \<Rightarrow> 'a \<Rightarrow> bool \<times> 'a) \<Rightarrow> 'a WalkFunc" where
  "RemoveAllBy_fn d filterFn path info err s =
     (case err of
        Some e \<Rightarrow> (s, Some e)
      | None \<Rightarrow>
          (case info of
             None \<Rightarrow> (s, Some (Panic ''nil pointer dereference''))
           | Some i \<Rightarrow>
               if \<not> IsDir i then
                 if \<not> strings_HasSuffix (Name i) Ext then (s, None)
                 else (case filterFn (Name i) (snd s) of
                         (True, a') \<Rightarrow>
                           (case os_Remove (fst s) (filepath_Join d (Name i)) of
                              (root', Some e) \<Rightarrow>
                                ((root', a'), Some (Wrapped ''filecache: failed to remove file'' e))
                            | (root', None) \<Rightarrow> ((root', a'), None))
                       | (False, a') \<Rightarrow> ((fst s, a'), None))
               else (s, None)))"

definition RemoveAllBy :: "nat \<Rightarrow> (string \<Rightarrow> 'a \<Rightarrow> bool \<times> 'a) \<Rightarrow> 'a \<Rightarrow> 'v world
               \<Rightarrow> ('v world \<times> 'a \<times> error option) option" where
  "RemoveAllBy n filterFn a w =
     (case filepath_Walk n (dir (cacher w)) (RemoveAllBy_fn (dir (cacher w)) filterFn) (fs w, a) of
        None \<Rightarrow> None
      | Some ((root', a'), err) \<Rightarrow>
          Some (\<lparr>fs = root', cacher = (cacher w)\<lparr>stores := Map.empty\<rparr>\<rparr>, a', err))"

definition GetTotalSize_fn :: "(64 word) WalkFunc" where
  "GetTotalSize_fn path info err s =
     (case err of
        Some e \<Rightarrow> (s, Some e)
      | None \<Rightarrow>
          (case info of
             None \<Rightarrow> (s, Some (Panic ''nil pointer dereference''))
           | Some i \<Rightarrow>
               if \<not> IsDir i then ((fst s, snd s + Size i), None) else (s, None)))"

definition GetTotalSize :: "nat \<Rightarrow> 'v world \<Rightarrow> ('v world \<times> 64 word \<times> error option) option" where
  "GetTotalSize n w =
     (case filepath_Walk n (dir (cacher w)) GetTotalSize_fn (fs w, 0) of
        None \<Rightarrow> None
      | Some ((root', totalSize), Some err) \<Rightarrow>
          Some (w\<lparr>fs := root'\<rparr>, 0,
                Some (Wrapped ''filecache: failed to walk the cache directory'' err))
      | Some ((root', totalSize), None) \<Rightarrow> Some (w\<lparr>fs := root'\<rparr>, totalSize, None))"

section \<open>Stating the properties\<close>





text \<open>
  The walk of \<open>Range\<close> in the words of its description, over the keys in the order yielded
  with the clock's reading at each, for a visitor that signals stop where \<open>cont\<close> is false:
  \<open>reached\<close> are the entries the walk gets to (all of them up to and including the first
  non-expired entry at which the visitor signals stop), \<open>Range_evicted\<close> the keys of those
  found expired, \<open>Range_visits\<close> the calls the visitor receives, in order.
\<close>

definition expired_in :: "(string \<rightharpoonup> 'v cacheItem) \<Rightarrow> string \<times> time \<Rightarrow> bool" where
  "expired_in d e = (case d (fst e) of None \<Rightarrow> False | Some item \<Rightarrow> expired (snd e) item)"

fun reached :: "(string \<rightharpoonup> 'v cacheItem) \<Rightarrow> (string \<Rightarrow> 'o \<Rightarrow> bool) \<Rightarrow> (string \<Rightarrow> 'o)
               \<Rightarrow> (string \<times> time) list \<Rightarrow> (string \<times> time) list" where
  "reached d cont val_of [] = []"
| "reached d cont val_of (e # es) =
     (if \<not> expired_in d e \<and> \<not> cont (fst e) (val_of (fst e)) then [e]
      else e # reached d cont val_of es)"

definition Range_evicted :: "(string \<rightharpoonup> 'v cacheItem) \<Rightarrow> (string \<Rightarrow> 'o \<Rightarrow> bool) \<Rightarrow> (string \<Rightarrow> 'o)
               \<Rightarrow> (string \<times> time) list \<Rightarrow> string set" where
  "Range_evicted d cont val_of order = fst ` set (filter (expired_in d) (reached d cont val_of order))"


text \<open>
  A well-formed tree: in every directory the names are distinct, non-empty, without a
  separator, and neither \<open>.\<close> nor \<open>..\<close>. \<open>height\<close> is the number of directory levels,
  \<open>total_size\<close> the number of bytes in the regular files of a tree, at any depth.
\<close>

definition valid_name :: "string \<Rightarrow> bool" where
  "valid_name n = (n \<noteq> [] \<and> n \<noteq> ''.'' \<and> n \<noteq> ''..'' \<and> CHR ''/'' \<notin> set n)"

fun wf_node :: "fsnode \<Rightarrow> bool" where
  "wf_node (File b) = True"
| "wf_node (Dir es) =
     (distinct (map fst es) \<and> list_all (\<lambda>e. valid_name (fst e) \<and> wf_node (snd e)) es)"

fun height :: "fsnode \<Rightarrow> nat" where
  "height (File b) = 0"
| "height (Dir es) = Suc (foldr (\<lambda>e m. max (height (snd e)) m) es 0)"

fun total_size :: "fsnode \<Rightarrow> nat" where
  "total_size (File b) = length b"
| "total_size (Dir es) = sum_list (map (\<lambda>e. total_size (snd e)) es)"

text \<open>
  The number of bytes in the regular files directly in a directory, not in those of its
  subdirectories.
\<close>

fun direct_size :: "fsnode \<Rightarrow> nat" where
  "direct_size (File b) = length b"
| "direct_size (Dir es) = sum_list (map (\<lambda>e. node_size (snd e)) es)"

text \<open>
  \<open>replace_at root cs new\<close> is the tree \<open>root\<close> with the node at the path \<open>cs\<close> replaced by
  \<open>new\<close>. A name is \<open>removable\<close> when it carries the suffix \<open>Ext\<close> and satisfies the filter
  \<open>p\<close>.
\<close>

fun replace_at :: "fsnode \<Rightarrow> string list \<Rightarrow> fsnode \<Rightarrow> fsnode" where
  "replace_at nd [] new = new"
| "replace_at (File b) (c # cs) new = File b"
| "replace_at (Dir es) (c # cs) new =
     (case map_of es c of
        None \<Rightarrow> Dir es
      | Some ch \<Rightarrow> Dir (put_entry c (replace_at ch cs new) es))"

definition removable :: "(string \<Rightarrow> bool) \<Rightarrow> string \<Rightarrow> bool" where
  "removable p name = (strings_HasSuffix name Ext \<and> p name)"

subsection \<open>Examples\<close>

text \<open>
  A small stand-in for \<open>encoding/json\<close> at the value type \<open>string\<close>: a value is its own
  encoding, except \<open>chan\<close>, which has none; a store's map is encoded by the value it holds
  under \<open>k\<close>.
\<close>

definition example_json :: "string json" where
  "example_json =
     \<lparr>Marshal = (\<lambda>v. if v = ''chan'' then Inl (JSONError ''unsupported type'') else Inr v),
      Encode = (\<lambda>d. case d ''k'' of None \<Rightarrow> Inr ''{}'' | Some item \<Rightarrow> Inr (Value item)),
      Decode = (\<lambda>b. Inr Map.empty)\<rparr>"

definition example_unmarshal :: "string unmarshal" where
  "example_unmarshal b out = (b, None)"

text \<open>
  A cacher on the directory \<open>d\<close> after \<open>Set\<close> of key \<open>k\<close> in bucket \<open>b\<close> at time 0 with a
  time-to-live of 5; and the same after the directory has been removed from the disk.
\<close>

definition example_world :: "string world" where
  "example_world = fst (Set example_json 0 ''b'' 5 ''k'' ''v'' (NewCacher ''d'' (Dir [])))"


text \<open>The same cacher after \<open>SetFrozen\<close> of the key instead.\<close>

definition frozen_world :: "string world" where
  "frozen_world = fst (SetFrozen example_json ''b'' ''k'' ''v'' (NewCacher ''d'' (Dir [])))"




text \<open>
  A cache directory \<open>d\<close> with a bucket file of one byte and a subdirectory holding a file
  of five bytes.
\<close>

definition nested_dir :: fsnode where
  "nested_dir = Dir [(''b.cache'', File ''v''), (''sub'', Dir [(''x.bin'', File ''12345'')])]"

definition nested_world :: "string world" where
  "nested_world =
     \<lparr>fs = Dir [(''d'', nested_dir)],
      cacher = \<lparr>dir = ''d'', stores = Map.empty, ext = ''.cache''\<rparr>\<rparr>"

text \<open>
  A cacher on a directory \<open>d\<close> that has a subdirectory \<open>sub\<close>, after \<open>Set\<close> of a key in the
  bucket named \<open>sub/x\<close>: the bucket's file is \<open>d/sub/x.cache\<close>.
\<close>

definition subdir_world :: "string world" where
  "subdir_world =
     fst (Set example_json 0 ''sub/x'' 5 ''k'' ''v''
            (NewCacher ''d'' (Dir [(''d'', Dir [(''sub'', Dir [])])])))"

section \<open>Properties\<close>

subsection \<open>The registry\<close>

lemma getStore_fs: "fs (fst (getStore js b w)) = fs w"
  by (simp add: getStore_def put_store_def split: option.splits prod.splits)

lemma getStore_Inr:
  assumes "getStore js b w = (w1, Inr store)"
  shows "stores (cacher w1) b = Some store" and "fs w1 = fs w"
    and "dir (cacher w1) = dir (cacher w)"
  using assms
  by (auto simp: getStore_def put_store_def split: option.splits prod.splits)


lemma getStore_loaded:
  "stores (cacher w) b = Some store \<Longrightarrow> getStore js b w = (w, Inr store)"
  by (simp add: getStore_def)

subsection \<open>The example worlds\<close>

lemma example_json_sel:
  "Marshal example_json v = (if v = ''chan'' then Inl (JSONError ''unsupported type'') else Inr v)"
  "Encode example_json d = (case d ''k'' of None \<Rightarrow> Inr ''{}'' | Some item \<Rightarrow> Inr (Value item))"
  "Decode example_json b = Inr Map.empty"
  by (simp_all add: example_json_def)

lemma example_world_fs: "fs example_world = Dir [(''d'', Dir [(''b.cache'', File ''v'')])]"
  by (simp add: example_world_def Set_def NewCacher_def getStore_def loadFromFile_def
      saveToFile_def os_Create_def file_Write_def os_MkdirAll_def path_components_def
      filepath_Join_def is_sep_def put_store_def example_json_sel Ext_def)

lemma example_world_stores:
  "stores (cacher example_world) ''b'' =
     Some \<lparr>filePath = ''d/b.cache'',
           data = [''k'' \<mapsto> \<lparr>Value = ''v'', Expiration = Some 5\<rparr>]\<rparr>"
  by (simp add: example_world_def Set_def NewCacher_def getStore_def loadFromFile_def
      saveToFile_def os_Create_def file_Write_def os_MkdirAll_def path_components_def
      filepath_Join_def is_sep_def put_store_def example_json_sel Ext_def)



lemma example_set_ok:
  "snd (Set example_json 0 ''b'' 5 ''k'' ''v'' (NewCacher ''d'' (Dir []))) = None"
  by (simp add: Set_def NewCacher_def getStore_def loadFromFile_def
      saveToFile_def os_Create_def file_Write_def os_MkdirAll_def path_components_def
      filepath_Join_def is_sep_def put_store_def example_json_sel Ext_def)

lemma example_setFrozen_ok:
  "snd (SetFrozen example_json ''b'' ''k'' ''v'' (NewCacher ''d'' (Dir []))) = None"
  by (simp add: SetFrozen_def NewCacher_def getStore_def loadFromFile_def
      saveToFile_def os_Create_def file_Write_def os_MkdirAll_def path_components_def
      filepath_Join_def is_sep_def put_store_def example_json_sel Ext_def)

subsection \<open>Reading and writing an entry\<close>

lemma Set_ok_getStore:
  assumes "snd (Set js t0 b d k v w) = None"
  shows "\<exists>w1 store. getStore js b w = (w1, Inr store)"
  using assms by (cases "getStore js b w") (auto simp: Set_def split: sum.splits)

lemma Set_stores:
  assumes "getStore js b w = (w1, Inr store)"
  shows "stores (cacher (fst (Set js t0 b d k v w))) b
           = Some (store\<lparr>data := (data store)(k \<mapsto> \<lparr>Value = v, Expiration = Some (t0 + d)\<rparr>)\<rparr>)"
  using assms by (simp add: Set_def Let_def put_store_def split: prod.splits)

lemma SetFrozen_ok_getStore:
  assumes "snd (SetFrozen js b k v w) = None"
  shows "\<exists>w1 store. getStore js b w = (w1, Inr store)"
  using assms by (cases "getStore js b w") (auto simp: SetFrozen_def split: sum.splits)

lemma SetFrozen_stores:
  assumes "getStore js b w = (w1, Inr store)"
  shows "stores (cacher (fst (SetFrozen js b k v w))) b
           = Some (store\<lparr>data := (data store)(k \<mapsto> \<lparr>Value = v, Expiration = None\<rparr>)\<rparr>)"
  using assms by (simp add: SetFrozen_def Let_def put_store_def split: prod.splits)

lemma Get_live:
  assumes "stores (cacher w) b = Some store" and "data store k = Some item"
    and "\<not> expired now item" and "Marshal js (Value item) = Inr bts"
  shows "Get js um now b k out w = (w, fst (um bts out), True, snd (um bts out))"
  using assms by (simp add: Get_def getStore_loaded split: prod.splits)

lemma Get_expired:
  assumes "stores (cacher w) b = Some store" and "data store k = Some item"
    and "expired now item"
  shows "snd (Get js um now b k out w) = (out, False, None)"
    and "stores (cacher (fst (Get js um now b k out w))) b
           = Some (store\<lparr>data := (data store)(k := None)\<rparr>)"
  using assms by (simp_all add: Get_def getStore_loaded Let_def put_store_def split: prod.splits)

lemma GetFrozen_found:
  assumes "getStore js b w = (w1, Inr store)" and "data store k = Some item"
    and "Marshal js (Value item) = Inr bts"
  shows "GetFrozen js um b k out w = (w1, fst (um bts out), True, snd (um bts out))"
  using assms by (simp add: GetFrozen_def split: prod.splits)

lemma Range_loop_absent_key:
  assumes "d k = None" and "\<And>key val a. key \<noteq> k \<Longrightarrow> f key val a = f' key val a"
  shows "Range_loop js um zero f order d a = Range_loop js um zero f' order d a"
  using assms(1)
proof (induction order arbitrary: d a)
  case Nil
  show ?case by simp
next
  case (Cons x order)
  obtain key now where x: "x = (key, now)" by (cases x)
  show ?case
  proof (cases "d key")
    case None
    then show ?thesis using Cons x by simp
  next
    case (Some item)
    then have "key \<noteq> k" using Cons.prems by auto
    then have ff: "f key = f' key" using assms(2) by (intro ext) simp
    have IH1: "Range_loop js um zero f order (d(key := None)) a
                 = Range_loop js um zero f' order (d(key := None)) a"
      by (rule Cons.IH) (simp add: Cons.prems)
    have IH2: "\<And>a'. Range_loop js um zero f order d a' = Range_loop js um zero f' order d a'"
      using Cons.IH[of d] Cons.prems by simp
    show ?thesis using Some x ff IH1 IH2
      by (simp split: sum.splits prod.splits option.splits bool.splits)
  qed
qed


lemma Range_loop_state_absent:
  assumes g: "\<And>key val m. key \<noteq> k \<Longrightarrow> m k = None \<Longrightarrow> snd (g key val m) k = None"
    and "d k = None" and "m k = None"
  shows "fst (snd (Range_loop js um zero g order d m)) k = None"
  using assms(2,3)
proof (induction order arbitrary: d m)
  case Nil
  then show ?case by simp
next
  case (Cons x order)
  obtain key now where x: "x = (key, now)" by (cases x)
  show ?case
  proof (cases "d key")
    case None
    then show ?thesis using Cons x by simp
  next
    case (Some item)
    then have kk: "key \<noteq> k" using Cons.prems by auto
    have IH1: "fst (snd (Range_loop js um zero g order (d(key := None)) m)) k = None"
      by (rule Cons.IH) (simp_all add: Cons.prems)
    have IH2: "\<And>val. fst (snd (Range_loop js um zero g order d (snd (g key val m)))) k = None"
      using kk by (intro Cons.IH g) (auto simp: Cons.prems)
    have stop: "\<And>val. snd (g key val m) k = None"
      using kk Cons.prems by (intro g) auto
    show ?thesis
    proof (cases "expired now item")
      case True
      then show ?thesis using Some x IH1 by simp
    next
      case False
      show ?thesis
      proof (cases "Marshal js (Value item)")
        case (Inl err)
        then show ?thesis using Some x False Cons.prems by simp
      next
        case (Inr itemVal)
        obtain out r where u: "um itemVal zero = (out, r)" by (cases "um itemVal zero")
        obtain c a' where gg: "g key out m = (c, a')" by (cases "g key out m")
        show ?thesis using Some x False Inr u gg IH2[of out] stop[of out] Cons.prems
          by (cases r; cases c) simp_all
      qed
    qed
  qed
qed

lemma Range_loop_collect_absent:
  assumes "d k = None"
  shows "fst (snd (Range_loop js um zero GetAll_visitor order d Map.empty)) k = None"
  by (rule Range_loop_state_absent[where d = d and k = k, OF _ assms])
     (simp_all add: GetAll_visitor_def)

lemma Range_c_loaded:
  assumes "stores (cacher w) b = Some store"
  shows "Range_c js um zero order b f a w =
     (case Range_loop js um zero f order (data store) a of
        (d, a', Some err) \<Rightarrow> (put_store b (store\<lparr>data := d\<rparr>) w, a', Some err)
      | (d, a', None) \<Rightarrow>
          (case saveToFile js (store\<lparr>data := d\<rparr>) (fs w) of
             (root', r) \<Rightarrow> (put_store b (store\<lparr>data := d\<rparr>) (w\<lparr>fs := root'\<rparr>), a', r)))"
  using assms by (simp add: Range_c_def getStore_loaded)

lemma Range_c_absent_key:
  assumes "stores (cacher w) b = Some store" and "data store k = None"
    and "\<And>key val a. key \<noteq> k \<Longrightarrow> f key val a = f' key val a"
  shows "Range_c js um zero order b f a w = Range_c js um zero order b f' a w"
  using Range_loop_absent_key[where d = "data store" and k = k, OF assms(2), of f f' js um zero order a] assms(3)
  by (simp add: Range_c_loaded[OF assms(1)])

lemma GetAll_absent_key:
  assumes "stores (cacher w) b = Some store" and "data store k = None"
    and "fst (snd (GetAll js um zero order b w)) = Some m"
  shows "m k = None"
proof -
  let ?g = "GetAll_visitor :: string \<Rightarrow> 'c \<Rightarrow> (string \<rightharpoonup> 'c) \<Rightarrow> bool \<times> (string \<rightharpoonup> 'c)"
  have "fst (snd (Range_loop js um zero ?g order (data store) Map.empty)) k = None"
    by (rule Range_loop_collect_absent[where d = "data store" and k = k, OF assms(2)])
  then show ?thesis using assms(3)
    by (auto simp: GetAll_def getStore_loaded[OF assms(1)] Range_c_loaded[OF assms(1)]
        split: prod.splits option.splits)
qed

subsection \<open>Entries without expiration survive the loops\<close>

lemma CleanBucket_loop_frozen:
  assumes "d k = Some item" and "Expiration item = None"
  shows "CleanBucket_loop order d k = Some item"
  using assms(1)
proof (induction order arbitrary: d)
  case Nil
  then show ?case by simp
next
  case (Cons x order)
  obtain key now where x: "x = (key, now)" by (cases x)
  have ne: "\<not> expired now item" using assms(2) by (simp add: expired_def)
  show ?case
  proof (cases "d key")
    case None
    then show ?thesis using Cons x by simp
  next
    case (Some item')
    show ?thesis
    proof (cases "key = k")
      case True
      then show ?thesis using Cons Some x ne by simp
    next
      case False
      then have "(d(key := None)) k = Some item" using Cons.prems by simp
      then have "CleanBucket_loop order (d(key := None)) k = Some item" by (rule Cons.IH)
      then show ?thesis using Cons Some x by simp
    qed
  qed
qed

lemma Range_loop_frozen:
  assumes "d k = Some item" and "Expiration item = None"
  shows "fst (Range_loop js um zero f order d a) k = Some item"
  using assms(1)
proof (induction order arbitrary: d a)
  case Nil
  then show ?case by simp
next
  case (Cons x order)
  obtain key now where x: "x = (key, now)" by (cases x)
  have ne: "\<not> expired now item" using assms(2) by (simp add: expired_def)
  show ?case
  proof (cases "d key")
    case None
    then show ?thesis using Cons x by simp
  next
    case (Some item')
    have IH2: "\<And>a'. fst (Range_loop js um zero f order d a') k = Some item"
      using Cons.IH[of d] Cons.prems by simp
    show ?thesis
    proof (cases "expired now item'")
      case True
      then have "key \<noteq> k" using Some Cons.prems ne by auto
      then have "(d(key := None)) k = Some item" using Cons.prems by simp
      then have "fst (Range_loop js um zero f order (d(key := None)) a) k = Some item"
        by (rule Cons.IH)
      then show ?thesis using Some x True by simp
    next
      case False
      show ?thesis
      proof (cases "Marshal js (Value item')")
        case (Inl err)
        then show ?thesis using Some x False Cons.prems by simp
      next
        case (Inr itemVal)
        obtain out r where u: "um itemVal zero = (out, r)" by (cases "um itemVal zero")
        obtain c a' where gg: "f key out a = (c, a')" by (cases "f key out a")
        show ?thesis using Some x False Inr u gg IH2[of a'] Cons.prems
          by (cases r; cases c) simp_all
      qed
    qed
  qed
qed





subsection \<open>The loops of \<open>Range\<close> and \<open>DeleteIf\<close>\<close>



lemma set_reached: "set (reached d cont val_of es) \<subseteq> set es"
  by (induction es) auto



lemma Range_evicted_subset: "Range_evicted d cont val_of es \<subseteq> fst ` set es"
  unfolding Range_evicted_def using set_reached[of d cont val_of es] by auto






lemma example_world_dir: "dir (cacher example_world) = ''d''"
  by (simp add: example_world_def Set_def NewCacher_def getStore_def loadFromFile_def
      saveToFile_def os_Create_def file_Write_def os_MkdirAll_def path_components_def
      filepath_Join_def is_sep_def put_store_def example_json_sel Ext_def)

lemma nested_world_sel:
  "fs nested_world = Dir [(''d'', nested_dir)]" "dir (cacher nested_world) = ''d''"
  by (simp_all add: nested_world_def)

lemma subdir_world_fs:
  "fs subdir_world = Dir [(''d'', Dir [(''sub'', Dir [(''x.cache'', File ''v'')])])]"
  by (simp add: subdir_world_def Set_def NewCacher_def getStore_def loadFromFile_def
      saveToFile_def os_Create_def file_Write_def os_MkdirAll_def path_components_def
      filepath_Join_def is_sep_def put_store_def example_json_sel Ext_def)

lemma subdir_world_dir: "dir (cacher subdir_world) = ''d''"
  by (simp add: subdir_world_def Set_def NewCacher_def getStore_def loadFromFile_def
      saveToFile_def os_Create_def file_Write_def os_MkdirAll_def path_components_def
      filepath_Join_def is_sep_def put_store_def example_json_sel Ext_def)

lemma subdir_world_set_ok:
  "snd (Set example_json 0 ''sub/x'' 5 ''k'' ''v''
            (NewCacher ''d'' (Dir [(''d'', Dir [(''sub'', Dir [])])]))) = None"
  by (simp add: Set_def NewCacher_def getStore_def loadFromFile_def
      saveToFile_def os_Create_def file_Write_def os_MkdirAll_def path_components_def
      filepath_Join_def is_sep_def put_store_def example_json_sel Ext_def)

lemma RemoveAllBy_clears_registry:
  assumes "RemoveAllBy n filterFn a w = Some (w', a', r)"
  shows "stores (cacher w') = Map.empty"
  using assms by (auto simp: RemoveAllBy_def split: option.splits prod.splits)

subsection \<open>Paths and the tree\<close>

lemma split_path_nonempty: "split_path p \<noteq> []"
  by (induction p) (auto split: list.splits)

lemma split_path_append:
  "split_path (a @ CHR ''/'' # b) = split_path a @ split_path b"
proof (induction a)
  case Nil
  show ?case by (simp add: is_sep_def)
next
  case (Cons c a)
  obtain x xs where s: "split_path a = x # xs"
    using split_path_nonempty[of a] by (cases "split_path a") auto
  show ?case using Cons s by (simp add: is_sep_def)
qed

lemma split_path_name: "CHR ''/'' \<notin> set n \<Longrightarrow> split_path n = [n]"
  by (induction n) (auto simp: is_sep_def)

lemma resolve_dots_append:
  "resolve_dots st (xs @ ys) = resolve_dots (rev (resolve_dots st xs)) ys"
  by (induction xs arbitrary: st) auto

lemma path_components_Join:
  assumes "valid_name n"
  shows "path_components (filepath_Join p n) = path_components p @ [n]"
proof (cases "p = []")
  case True
  then show ?thesis using assms
    by (simp add: filepath_Join_def path_components_def split_path_name valid_name_def)
next
  case False
  have "path_components (p @ CHR ''/'' # n) = resolve_dots (rev (path_components p)) [n]"
    using assms
    by (simp add: path_components_def split_path_append resolve_dots_append split_path_name
        valid_name_def)
  then show ?thesis using False assms
    by (simp add: filepath_Join_def valid_name_def)
qed

lemma filepath_Base_Join:
  assumes "valid_name n"
  shows "filepath_Base (filepath_Join p n) = n"
proof -
  have ne: "n \<noteq> []" and ns: "\<forall>c \<in> set n. \<not> is_sep c"
    using assms by (auto simp: valid_name_def is_sep_def)
  then have l: "\<not> is_sep (last n)" by simp
  have b: "filepath_Base (q @ n) = n" if "q = [] \<or> is_sep (last q)" for q
  proof -
    have d: "dropWhile is_sep (rev n @ rev q) = rev n @ rev q"
      using ne l by (cases n rule: rev_cases) auto
    have t: "takeWhile (\<lambda>c. \<not> is_sep c) (rev n @ rev q) = rev n"
      using that ns by (cases q rule: rev_cases) (auto simp: takeWhile_append)
    show ?thesis using ne d t by (simp add: filepath_Base_def Let_def)
  qed
  show ?thesis
  proof (cases "p = []")
    case True
    then show ?thesis using b[of "[]"] by (simp add: filepath_Join_def)
  next
    case False
    have "filepath_Base ((p @ ''/'') @ n) = n" by (rule b) (simp add: is_sep_def)
    then show ?thesis using False ne by (simp add: filepath_Join_def)
  qed
qed

lemma resolve_append:
  "resolve root (xs @ ys) = (case resolve root xs of Inl e \<Rightarrow> Inl e | Inr nd \<Rightarrow> resolve nd ys)"
proof (induction xs arbitrary: root)
  case Nil
  show ?case by simp
next
  case (Cons c cs)
  show ?case by (cases root) (auto simp: Cons split: option.splits)
qed

lemma os_Lstat_child:
  assumes "resolve root (path_components p) = Inr (Dir es)" and "map_of es n = Some ch"
    and "valid_name n"
  shows "os_Lstat root (filepath_Join p n)
           = Inr \<lparr>Name = n, IsDir = is_Dir ch, Size = of_nat (node_size ch)\<rparr>"
  using assms
  by (simp add: os_Lstat_def path_components_Join resolve_append filepath_Base_Join)

lemma readDirNames_Dir:
  assumes "resolve root (path_components p) = Inr (Dir es)"
  shows "readDirNames root p = Inr (sort (map fst es))"
  using assms by (simp add: readDirNames_def)

lemma height_child:
  "e \<in> set es \<Longrightarrow> height (snd e) \<le> foldr (\<lambda>e m. max (height (snd e)) m) es 0"
  by (induction es) auto

lemma map_of_entry:
  "distinct (map fst es) \<Longrightarrow> e \<in> set es \<Longrightarrow> map_of es (fst e) = Some (snd e)"
  by (cases e) simp


lemma sum_list_sorted_names:
  fixes g :: "fsnode \<Rightarrow> nat"
  assumes "distinct (map fst es)"
  shows "sum_list (map (\<lambda>n. g (the (map_of es n))) (sort (map fst es)))
           = sum_list (map (\<lambda>e. g (snd e)) es)"
proof -
  have "sum_list (map (\<lambda>n. g (the (map_of es n))) (sort (map fst es)))
          = sum (\<lambda>n. g (the (map_of es n))) (set (sort (map fst es)))"
    using assms by (intro sum_list_distinct_conv_sum_set) simp
  also have "\<dots> = sum (\<lambda>n. g (the (map_of es n))) (set (map fst es))" by simp
  also have "\<dots> = sum_list (map (\<lambda>n. g (the (map_of es n))) (map fst es))"
    using assms by (intro sum_list_distinct_conv_sum_set[symmetric])
  also have "\<dots> = sum_list (map (\<lambda>e. g (snd e)) es)"
    using assms by (auto simp: comp_def intro!: arg_cong[where f = sum_list] map_cong)
  finally show ?thesis .
qed

lemma GetTotalSize_fn_apply:
  "\<not> IsDir i \<Longrightarrow> GetTotalSize_fn path (Some i) None s = ((fst s, snd s + Size i), None)"
  "IsDir i \<Longrightarrow> GetTotalSize_fn path (Some i) None s = (s, None)"
  "GetTotalSize_fn path info (Some e) s = (s, Some e)"
  by (simp_all add: GetTotalSize_fn_def)

lemma walk_GetTotalSize:
  assumes "wf_node t" and "resolve root (path_components path) = Inr t" and "height t < n"
  shows "walk n GetTotalSize_fn path \<lparr>Name = nm, IsDir = is_Dir t, Size = of_nat (node_size t)\<rparr>
           (root, acc) = Some ((root, acc + of_nat (total_size t)), None)"
  using assms
proof (induction t arbitrary: n path nm acc)
  case (File b)
  then obtain m where n: "n = Suc m" by (cases n) auto
  show ?case by (simp add: n GetTotalSize_fn_apply)
next
  case (Dir es)
  then obtain m where n: "n = Suc m" by (cases n) auto
  have hm: "foldr (\<lambda>e m. max (height (snd e)) m) es 0 < m" using Dir.prems(3) n by simp
  have dist: "distinct (map fst es)" using Dir.prems(1) by simp
  have names: "walk_names m GetTotalSize_fn path ns (root, acc)
      = Some ((root, acc + of_nat (sum_list (map (\<lambda>n. total_size (the (map_of es n))) ns))), None)"
    if "set ns \<subseteq> fst ` set es" for ns acc
    using that
  proof (induction ns arbitrary: acc)
    case Nil
    show ?case by simp
  next
    case (Cons c ns)
    then obtain e where e: "e \<in> set es" and c: "c = fst e" by auto
    have mo: "map_of es c = Some (snd e)" using map_of_entry[OF dist e] c by simp
    have v: "valid_name c" and wfc: "wf_node (snd e)"
      using Dir.prems(1) e c by (auto simp: list_all_iff)
    have hc: "height (snd e) < m" using height_child[OF e] hm by simp
    have rc: "resolve root (path_components (filepath_Join path c)) = Inr (snd e)"
      using Dir.prems(2) mo v by (simp add: path_components_Join resolve_append)
    have ls: "os_Lstat root (filepath_Join path c)
                = Inr \<lparr>Name = c, IsDir = is_Dir (snd e), Size = of_nat (node_size (snd e))\<rparr>"
      by (rule os_Lstat_child[OF Dir.prems(2) mo v])
    have sn: "snd e \<in> Basic_BNFs.snds e" by (cases e) simp
    have w: "walk m GetTotalSize_fn (filepath_Join path c)
               \<lparr>Name = c, IsDir = is_Dir (snd e), Size = of_nat (node_size (snd e))\<rparr> (root, acc)
             = Some ((root, acc + of_nat (total_size (snd e))), None)"
      by (rule Dir.IH[OF e sn wfc rc hc])
    have rest: "walk_names m GetTotalSize_fn path ns (root, acc + of_nat (total_size (snd e)))
      = Some ((root, acc + of_nat (total_size (snd e))
                 + of_nat (sum_list (map (\<lambda>n. total_size (the (map_of es n))) ns))), None)"
      using Cons.prems by (intro Cons.IH) simp
    show ?case using ls w rest mo by (simp add: add.assoc)
  qed
  have rd: "readDirNames root path = Inr (sort (map fst es))"
    by (rule readDirNames_Dir[OF Dir.prems(2)])
  have "walk_names m GetTotalSize_fn path (sort (map fst es)) (root, acc)
      = Some ((root, acc + of_nat (sum_list (map (\<lambda>e. total_size (snd e)) es))), None)"
    using names[of "sort (map fst es)" acc] sum_list_sorted_names[OF dist, of total_size]
    by simp
  then show ?case using rd by (simp add: n GetTotalSize_fn_apply)
qed

subsection \<open>Walking the tree\<close>

lemma walk_preserves_fs:
  fixes fn :: "'a WalkFunc"
  shows "(\<And>p i e s. fst (fst (fn p i e s)) = fst s) \<Longrightarrow>
           walk n fn path info s = Some (s', r) \<Longrightarrow> fst s' = fst s"
    and "(\<And>p i e s. fst (fst (fn p i e s)) = fst s) \<Longrightarrow>
           walk_names n fn path names s = Some (s', r) \<Longrightarrow> fst s' = fst s"
proof (induction n fn path info s and n fn path names s arbitrary: s' r and s' r
       rule: walk_walk_names.induct)
  case (1 walkFn path info s)
  then show ?case by simp
next
  case (2 n walkFn path info s)
  note pres = 2(2)
  show ?case
  proof (cases "IsDir info")
    case False
    then have "walkFn path (Some info) None s = (s', r)" using 2(3) by simp
    then show ?thesis using pres[of path "Some info" None s] by simp
  next
    case True
    show ?thesis
    proof (cases "readDirNames (fst s) path")
      case (Inl err)
      then have "walkFn path (Some info) (Some err) s = (s', r)" using 2(3) True by simp
      then show ?thesis using pres[of path "Some info" "Some err" s] by simp
    next
      case (Inr names)
      obtain s1 r1 where cb: "walkFn path (Some info) None s = (s1, r1)"
        by (cases "walkFn path (Some info) None s")
      have f1: "fst s1 = fst s" using pres[of path "Some info" None s] cb by simp
      show ?thesis
      proof (cases r1)
        case None
        have "walk_names n walkFn path names s1 = Some (s', r)"
          using 2(3) True Inr cb None by simp
        then have "fst s' = fst s1"
          using 2(1)[OF _ Inr cb[symmetric] None pres] True by simp
        then show ?thesis using f1 by simp
      next
        case (Some err1)
        then show ?thesis using 2(3) True Inr cb f1 by simp
      qed
    qed
  qed
next
  case (3 n walkFn path s)
  then show ?case by simp
next
  case (4 n walkFn path name names s)
  note pres = 4(4)
  show ?case
  proof (cases "os_Lstat (fst s) (filepath_Join path name)")
    case (Inl err)
    obtain s1 r1 where cb: "walkFn (filepath_Join path name) None (Some err) s = (s1, r1)"
      by (cases "walkFn (filepath_Join path name) None (Some err) s")
    have f1: "fst s1 = fst s"
      using pres[of "filepath_Join path name" None "Some err" s] cb by simp
    show ?thesis
    proof (cases r1)
      case None
      have "walk_names n walkFn path names s1 = Some (s', r)"
        using 4(5) Inl cb None by simp
      then have "fst s' = fst s1" using 4(1)[OF Inl cb[symmetric] None pres] by simp
      then show ?thesis using f1 by simp
    next
      case (Some err1)
      then show ?thesis using 4(5) Inl cb f1 by simp
    qed
  next
    case (Inr fileInfo)
    show ?thesis
    proof (cases "walk n walkFn (filepath_Join path name) fileInfo s")
      case None
      then show ?thesis using 4(5) Inr by simp
    next
      case (Some res)
      obtain s1 r1 where res: "res = (s1, r1)" by (cases res)
      have w: "walk n walkFn (filepath_Join path name) fileInfo s = Some (s1, r1)"
        using Some res by simp
      have f1: "fst s1 = fst s" using 4(2)[OF Inr pres w] by simp
      show ?thesis
      proof (cases r1)
        case None
        have "walk_names n walkFn path names s1 = Some (s', r)"
          using 4(5) Inr w None by simp
        then have "fst s' = fst s1" using 4(3)[OF Inr w[unfolded None] _ _ pres] by simp
        then show ?thesis using f1 by simp
      next
        case (Some err1)
        then show ?thesis using 4(5) Inr w f1 by simp
      qed
    qed
  qed
qed

lemma GetTotalSize_fn_preserves: "fst (fst (GetTotalSize_fn p i e s)) = fst s"
  by (cases e; cases i) (simp_all add: GetTotalSize_fn_def)

lemma GetTotalSize_read_only:
  assumes "GetTotalSize n w = Some (w', sz, r)"
  shows "w' = w"
proof (cases "os_Lstat (fs w) (dir (cacher w))")
  case (Inl err)
  then show ?thesis using assms
    by (auto simp: GetTotalSize_def filepath_Walk_def GetTotalSize_fn_apply)
next
  case (Inr info)
  show ?thesis
  proof (cases "walk n GetTotalSize_fn (dir (cacher w)) info (fs w, 0)")
    case None
    then show ?thesis using assms Inr by (simp add: GetTotalSize_def filepath_Walk_def)
  next
    case (Some res)
    obtain root' total r' where res: "res = ((root', total), r')" by (cases res) auto
    have "fst (root', total) = fst (fs w, 0::64 word)"
      by (rule walk_preserves_fs(1)[OF GetTotalSize_fn_preserves Some[unfolded res]])
    then have "root' = fs w" by simp
    then show ?thesis using assms Inr Some res
      by (cases r') (auto simp: GetTotalSize_def filepath_Walk_def)
  qed
qed

lemma GetTotalSize_total:
  assumes "resolve (fs w) (path_components (dir (cacher w))) = Inr t" and "wf_node t"
    and "height t < n"
  shows "GetTotalSize n w = Some (w, of_nat (total_size t), None)"
proof -
  have ls: "os_Lstat (fs w) (dir (cacher w))
      = Inr \<lparr>Name = filepath_Base (dir (cacher w)), IsDir = is_Dir t, Size = of_nat (node_size t)\<rparr>"
    using assms(1) by (simp add: os_Lstat_def)
  have "walk n GetTotalSize_fn (dir (cacher w))
          \<lparr>Name = filepath_Base (dir (cacher w)), IsDir = is_Dir t, Size = of_nat (node_size t)\<rparr>
          (fs w, 0) = Some ((fs w, 0 + of_nat (total_size t)), None)"
    by (rule walk_GetTotalSize[OF assms(2,1,3)])
  then show ?thesis using ls by (simp add: GetTotalSize_def filepath_Walk_def)
qed

subsection \<open>\<open>RemoveAllBy\<close> on a directory of regular files\<close>

lemma map_of_put_entry: "map_of (put_entry c x es) c = Some x"
  by (induction es) auto

lemma put_entry_twice: "put_entry c x2 (put_entry c x1 es) = put_entry c x2 es"
  by (induction es) auto

lemma put_entry_same: "map_of es c = Some ch \<Longrightarrow> put_entry c ch es = es"
  by (induction es) (auto split: if_splits)

lemma replace_at_same: "resolve root cs = Inr t \<Longrightarrow> replace_at root cs t = root"
proof (induction cs arbitrary: root)
  case Nil
  then show ?case by simp
next
  case (Cons c cs)
  then show ?case
    by (cases root) (auto simp: put_entry_same split: option.splits)
qed

lemma resolve_replace_at:
  "resolve root cs = Inr t \<Longrightarrow> resolve (replace_at root cs new) cs = Inr new"
proof (induction cs arbitrary: root)
  case Nil
  show ?case by simp
next
  case (Cons c cs)
  then show ?case
    by (cases root) (auto simp: map_of_put_entry split: option.splits)
qed

lemma replace_at_twice:
  "resolve root cs = Inr t \<Longrightarrow>
   replace_at (replace_at root cs new1) cs new2 = replace_at root cs new2"
proof (induction cs arbitrary: root)
  case Nil
  show ?case by simp
next
  case (Cons c cs)
  then show ?case
    by (cases root) (auto simp: map_of_put_entry put_entry_twice split: option.splits)
qed

lemma modify_at_child:
  assumes "resolve root cs = Inr (Dir es)"
  shows "modify_at root (cs @ [n]) g =
     (case g (map_of es n) of
        Inl err \<Rightarrow> Inl err
      | Inr None \<Rightarrow> Inr (replace_at root cs (Dir (del_entry n es)))
      | Inr (Some nd) \<Rightarrow> Inr (replace_at root cs (Dir (put_entry n nd es))))"
  using assms
proof (induction cs arbitrary: root)
  case Nil
  then show ?case by (simp split: sum.splits option.splits)
next
  case (Cons c cs)
  then obtain es0 ch where root: "root = Dir es0" and ch: "map_of es0 c = Some ch"
    and r: "resolve ch cs = Inr (Dir es)"
    by (cases root) (auto split: option.splits)
  obtain c' rest where cs': "cs @ [n] = c' # rest" by (cases cs) auto
  have "modify_at root (c # cs @ [n]) g =
          (case modify_at ch (cs @ [n]) g of
             Inl err \<Rightarrow> Inl err
           | Inr ch' \<Rightarrow> Inr (Dir (put_entry c ch' es0)))"
    using root ch cs' by simp
  then show ?case using Cons.IH[OF r] root ch
    by (auto split: sum.splits option.splits)
qed

lemma os_Remove_file:
  assumes "resolve root (path_components p) = Inr (Dir es)" and "map_of es n = Some (File b)"
    and "valid_name n"
  shows "os_Remove root (filepath_Join p n)
           = (replace_at root (path_components p) (Dir (del_entry n es)), None)"
  using assms by (simp add: os_Remove_def path_components_Join modify_at_child)

lemma RemoveAllBy_fn_file:
  assumes "resolve root (path_components d) = Inr (Dir es)" and "map_of es n = Some (File b)"
    and "valid_name n"
  shows "RemoveAllBy_fn d (\<lambda>name a. (p name, a)) path
            (Some \<lparr>Name = n, IsDir = False, Size = sz\<rparr>) None (root, a)
         = ((if removable p n then replace_at root (path_components d) (Dir (del_entry n es))
             else root, a), None)"
  using os_Remove_file[OF assms]
  by (simp add: RemoveAllBy_fn_def removable_def)

lemma RemoveAllBy_fn_dir:
  "RemoveAllBy_fn d filterFn path (Some \<lparr>Name = n, IsDir = True, Size = sz\<rparr>) None s = (s, None)"
  by (simp add: RemoveAllBy_fn_def)

lemma map_of_del_entry:
  "map_of (del_entry n es) m = (if m = n then None else map_of es m)"
  by (induction es) (auto simp: del_entry_def)

lemma walk_names_RemoveAllBy_flat:
  assumes "resolve root (path_components d) = Inr (Dir es)"
    and "distinct (map fst es)"
    and "\<forall>e \<in> set es. valid_name (fst e) \<and> \<not> is_Dir (snd e)"
    and "distinct ns" and "set ns \<subseteq> fst ` set es"
  shows "walk_names (Suc m) (RemoveAllBy_fn d (\<lambda>name a. (p name, a))) d ns (root, a)
     = Some ((replace_at root (path_components d)
                (Dir (filter (\<lambda>e. \<not> (fst e \<in> set ns \<and> removable p (fst e))) es)), a), None)"
  using assms
proof (induction ns arbitrary: root es)
  case Nil
  have "replace_at root (path_components d) (Dir es) = root"
    by (rule replace_at_same[OF Nil.prems(1)])
  then show ?case by simp
next
  case (Cons n ns)
  let ?cs = "path_components d"
  let ?fn = "RemoveAllBy_fn d (\<lambda>name a. (p name, a))"
  obtain e where e: "e \<in> set es" and n: "n = fst e" using Cons.prems(5) by auto
  have v: "valid_name n" and nd: "\<not> is_Dir (snd e)" using Cons.prems(3) e n by auto
  obtain b where b: "snd e = File b" using nd by (cases "snd e") auto
  have mo: "map_of es n = Some (File b)" using map_of_entry[OF Cons.prems(2) e] n b by simp
  have ls: "os_Lstat root (filepath_Join d n)
              = Inr \<lparr>Name = n, IsDir = False, Size = of_nat (length b)\<rparr>"
    using os_Lstat_child[OF Cons.prems(1) mo v] by simp
  let ?root1 = "if removable p n then replace_at root ?cs (Dir (del_entry n es)) else root"
  let ?es1 = "if removable p n then del_entry n es else es"
  have cb: "?fn (filepath_Join d n) (Some \<lparr>Name = n, IsDir = False, Size = of_nat (length b)\<rparr>)
              None (root, a) = ((?root1, a), None)"
    by (rule RemoveAllBy_fn_file[OF Cons.prems(1) mo v])
  have w: "walk (Suc m) ?fn (filepath_Join d n)
             \<lparr>Name = n, IsDir = False, Size = of_nat (length b)\<rparr> (root, a)
           = Some ((?root1, a), None)"
    using cb by simp
  have r1: "resolve ?root1 ?cs = Inr (Dir ?es1)"
    using Cons.prems(1) by (simp add: resolve_replace_at)
  have d1: "distinct (map fst ?es1)"
    using Cons.prems(2) by (simp add: del_entry_def distinct_map_filter)
  have f1: "\<forall>e \<in> set ?es1. valid_name (fst e) \<and> \<not> is_Dir (snd e)"
    using Cons.prems(3) by (simp add: del_entry_def)
  have fresh: "n \<notin> set ns" and dn: "distinct ns" using Cons.prems(4) by simp_all
  have s1: "set ns \<subseteq> fst ` set ?es1"
  proof
    fix x assume x: "x \<in> set ns"
    then obtain e' where e': "e' \<in> set es" and xe: "x = fst e'" using Cons.prems(5) by auto
    have "fst e' \<noteq> n" using x xe fresh by auto
    then show "x \<in> fst ` set ?es1" using e' xe by (auto simp: del_entry_def)
  qed
  have IH: "walk_names (Suc m) ?fn d ns (?root1, a)
     = Some ((replace_at ?root1 ?cs
                (Dir (filter (\<lambda>e. \<not> (fst e \<in> set ns \<and> removable p (fst e))) ?es1)), a), None)"
    by (rule Cons.IH[OF r1 d1 f1 dn s1])
  have fl: "filter (\<lambda>e. \<not> (fst e \<in> set ns \<and> removable p (fst e))) ?es1
          = filter (\<lambda>e. \<not> (fst e \<in> set (n # ns) \<and> removable p (fst e))) es"
    by (auto simp: del_entry_def intro!: filter_cong)
  have rp: "replace_at ?root1 ?cs (Dir es') = replace_at root ?cs (Dir es')" for es'
    using Cons.prems(1) by (simp add: replace_at_twice)
  show ?case using ls w IH fl rp by simp
qed

text \<open>
  When the cache directory holds regular files only, \<open>RemoveAllBy\<close> leaves in it exactly
  the files that are not removable, changes nothing else on the file system, clears the
  registry and returns no error.
\<close>

lemma RemoveAllBy_flat:
  assumes "resolve (fs w) (path_components (dir (cacher w))) = Inr (Dir es)"
    and "distinct (map fst es)"
    and "\<forall>e \<in> set es. valid_name (fst e) \<and> \<not> is_Dir (snd e)"
    and "2 \<le> n"
  shows "RemoveAllBy n (\<lambda>name a. (p name, a)) a w
     = Some (\<lparr>fs = replace_at (fs w) (path_components (dir (cacher w)))
                     (Dir (filter (\<lambda>e. \<not> removable p (fst e)) es)),
              cacher = (cacher w)\<lparr>stores := Map.empty\<rparr>\<rparr>, a, None)"
proof -
  obtain m where n: "n = Suc (Suc m)" using assms(4) by (cases n; cases "n - 1") auto
  let ?d = "dir (cacher w)"
  have ls: "os_Lstat (fs w) ?d = Inr \<lparr>Name = filepath_Base ?d, IsDir = True, Size = 0\<rparr>"
    using assms(1) by (simp add: os_Lstat_def)
  have rd: "readDirNames (fs w) ?d = Inr (sort (map fst es))"
    by (rule readDirNames_Dir[OF assms(1)])
  have wn: "walk_names (Suc m) (RemoveAllBy_fn ?d (\<lambda>name a. (p name, a))) ?d (sort (map fst es)) (fs w, a)
     = Some ((replace_at (fs w) (path_components ?d)
                (Dir (filter (\<lambda>e. \<not> (fst e \<in> set (sort (map fst es)) \<and> removable p (fst e))) es)), a), None)"
    by (rule walk_names_RemoveAllBy_flat[OF assms(1,2,3)]) (use assms(2) in simp_all)
  have fl: "filter (\<lambda>e. \<not> (fst e \<in> set (sort (map fst es)) \<and> removable p (fst e))) es
          = filter (\<lambda>e. \<not> removable p (fst e)) es"
    by (auto intro!: filter_cong)
  show ?thesis using ls rd wn fl
    by (simp add: RemoveAllBy_def filepath_Walk_def n RemoveAllBy_fn_dir)
qed

subsection \<open>Persisting after a mutation\<close>












section \<open>The claims\<close>

subsection \<open>C1: persist failures and the operations that mutate a store\<close>




subsection \<open>C2: the path of a bucket's file\<close>

text \<open>
  C2 does not hold of the code: \<open>getStore\<close> builds the path from the literal \<open>.cache\<close>, not
  from the extension the cacher was created with. A cacher made by \<open>NewCacherWithExt\<close>
  on directory \<open>d\<close> with extension \<open>.foo\<close> resolves bucket \<open>b\<close> to the file \<open>d/b.cache\<close>.
\<close>

theorem getStore_ignores_configured_ext:
  "snd (getStore js ''b'' (NewCacherWithExt ''d'' ''.foo'' (Dir []))) =
     Inr \<lparr>filePath = ''d/b.cache'', data = Map.empty\<rparr>"
  by (simp add: getStore_def NewCacherWithExt_def os_MkdirAll_def path_components_def is_sep_def
      loadFromFile_def filepath_Join_def put_store_def)

subsection \<open>C3: a time-to-live and the reads after it\<close>

text \<open>
  C3, as amended. After a successful \<open>Set\<close> at time \<open>t0\<close> with time-to-live \<open>d\<close> of a value
  that \<open>json.Marshal\<close> encodes, a \<open>Get\<close> at time \<open>t1\<close> finds the entry and decodes it into the
  caller's variable when the elapsed time \<open>t1 - t0\<close> is at most \<open>d\<close>, and returns not-found
  when it is greater than \<open>d\<close>. After such an expired \<open>Get\<close> the key is gone: what a
  subsequent \<open>Range\<close> does is independent of what its visitor would do at the key, and no
  map returned by a subsequent \<open>GetAll\<close> has the key.
\<close>

theorem get_respects_ttl:
  assumes "snd (Set js t0 b d k v w) = None" and "Marshal js v = Inr bts"
  shows "(t1 - t0 \<le> d \<longrightarrow>
            Get js um t1 b k out (fst (Set js t0 b d k v w))
              = (fst (Set js t0 b d k v w), fst (um bts out), True, snd (um bts out)))
       \<and> (d < t1 - t0 \<longrightarrow>
            snd (Get js um t1 b k out (fst (Set js t0 b d k v w))) = (out, False, None)
          \<and> ((\<forall>key val a. key \<noteq> k \<longrightarrow> f key val a = f' key val a) \<longrightarrow>
               Range_c js um' zero order b f a (fst (Get js um t1 b k out (fst (Set js t0 b d k v w))))
             = Range_c js um' zero order b f' a (fst (Get js um t1 b k out (fst (Set js t0 b d k v w)))))
          \<and> (\<forall>m. fst (snd (GetAll js um' zero order b
                       (fst (Get js um t1 b k out (fst (Set js t0 b d k v w)))))) = Some m
                 \<longrightarrow> m k = None))"
proof -
  obtain w1 store where g: "getStore js b w = (w1, Inr store)"
    using Set_ok_getStore[OF assms(1)] by blast
  let ?W1 = "fst (Set js t0 b d k v w)"
  let ?item = "\<lparr>Value = v, Expiration = Some (t0 + d)\<rparr>"
  let ?store1 = "store\<lparr>data := (data store)(k \<mapsto> ?item)\<rparr>"
  have s1: "stores (cacher ?W1) b = Some ?store1" by (rule Set_stores[OF g])
  have k1: "data ?store1 k = Some ?item" by simp
  have live: "t1 - t0 \<le> d \<Longrightarrow> Get js um t1 b k out ?W1 = (?W1, fst (um bts out), True, snd (um bts out))"
    by (rule Get_live[OF s1 k1]) (simp_all add: expired_def After_def assms(2))
  let ?W2 = "fst (Get js um t1 b k out ?W1)"
  {
    assume late: "d < t1 - t0"
    then have ex: "expired t1 ?item" by (simp add: expired_def After_def)
    have r: "snd (Get js um t1 b k out ?W1) = (out, False, None)"
      by (rule Get_expired(1)[OF s1 k1 ex])
    have s2: "stores (cacher ?W2) b = Some (?store1\<lparr>data := (data ?store1)(k := None)\<rparr>)"
      by (rule Get_expired(2)[OF s1 k1 ex])
    have k2: "data (?store1\<lparr>data := (data ?store1)(k := None)\<rparr>) k = None" by simp
    have rg: "(\<forall>key val a. key \<noteq> k \<longrightarrow> f key val a = f' key val a) \<Longrightarrow>
       Range_c js um' zero order b f a ?W2 = Range_c js um' zero order b f' a ?W2"
      by (rule Range_c_absent_key[OF s2 k2]) simp
    have ga: "\<And>m. fst (snd (GetAll js um' zero order b ?W2)) = Some m \<Longrightarrow> m k = None"
      by (rule GetAll_absent_key[OF s2 k2])
    note r rg ga
  }
  with live show ?thesis by blast
qed

text \<open>
  The theorem at the example: set at time 0 with a time-to-live of 5; found at time 3,
  not found at time 6, and absent from \<open>Range\<close> and \<open>GetAll\<close> afterwards.
\<close>

theorem get_respects_ttl_witness:
  "snd (Set example_json 0 ''b'' 5 ''k'' ''v'' (NewCacher ''d'' (Dir []))) = None
   \<and> Marshal example_json ''v'' = Inr ''v''
   \<and> snd (Get example_json example_unmarshal 3 ''b'' ''k'' [] example_world) = (''v'', True, None)
   \<and> snd (Get example_json example_unmarshal 6 ''b'' ''k'' [] example_world) = ([], False, None)
   \<and> Range_c example_json example_unmarshal [] [(''k'', 7)] ''b'' (\<lambda>key val n. (True, Suc n)) (0::nat)
        (fst (Get example_json example_unmarshal 6 ''b'' ''k'' [] example_world))
     = Range_c example_json example_unmarshal [] [(''k'', 7)] ''b'' (\<lambda>key val n. (key \<noteq> ''k'', if key = ''k'' then n else Suc n)) 0
        (fst (Get example_json example_unmarshal 6 ''b'' ''k'' [] example_world))
   \<and> fst (snd (GetAll example_json example_unmarshal [] [(''k'', 7)] ''b''
        (fst (Get example_json example_unmarshal 6 ''b'' ''k'' [] example_world)))) \<noteq> None
   \<and> the (fst (snd (GetAll example_json example_unmarshal [] [(''k'', 7)] ''b''
        (fst (Get example_json example_unmarshal 6 ''b'' ''k'' [] example_world))))) ''k'' = None"
proof -
  have m: "Marshal example_json ''v'' = Inr ''v''" by (simp add: example_json_sel)
  note t = get_respects_ttl[OF example_set_ok m, unfolded example_world_def[symmetric]]
  have a: "snd (Get example_json example_unmarshal 3 ''b'' ''k'' [] example_world) = (''v'', True, None)"
    using t[of 3 example_unmarshal "[]"] by (simp add: example_unmarshal_def)
  note t6 = t[of 6 example_unmarshal "[]" "\<lambda>key val n. (True, Suc n)" "\<lambda>key val n. (key \<noteq> ''k'', if key = ''k'' then n else Suc n)"
         example_unmarshal "[]" "[(''k'', 7)]" "0::nat"]
  have b: "snd (Get example_json example_unmarshal 6 ''b'' ''k'' [] example_world) = ([], False, None)"
    using t6 by simp
  have c: "Range_c example_json example_unmarshal [] [(''k'', 7)] ''b'' (\<lambda>key val n. (True, Suc n)) (0::nat)
        (fst (Get example_json example_unmarshal 6 ''b'' ''k'' [] example_world))
     = Range_c example_json example_unmarshal [] [(''k'', 7)] ''b'' (\<lambda>key val n. (key \<noteq> ''k'', if key = ''k'' then n else Suc n)) 0
        (fst (Get example_json example_unmarshal 6 ''b'' ''k'' [] example_world))"
    using t6 by simp
  have s2: "stores (cacher (fst (Get example_json example_unmarshal 6 ''b'' ''k'' [] example_world))) ''b''
      = Some \<lparr>filePath = ''d/b.cache'', data = Map.empty\<rparr>"
    by (simp add: Get_expired(2)[OF example_world_stores, where item = "\<lparr>Value = ''v'', Expiration = Some 5\<rparr>"]
        expired_def After_def)
  have f2: "fs (fst (Get example_json example_unmarshal 6 ''b'' ''k'' [] example_world))
      = Dir [(''d'', Dir [(''b.cache'', File ''{}'')])]"
    by (simp add: Get_def getStore_loaded[OF example_world_stores] example_world_fs expired_def
        After_def saveToFile_def os_Create_def file_Write_def path_components_def is_sep_def
        put_store_def example_json_sel)
  have d: "fst (snd (GetAll example_json example_unmarshal [] [(''k'', 7)] ''b''
        (fst (Get example_json example_unmarshal 6 ''b'' ''k'' [] example_world)))) \<noteq> None"
    by (simp add: GetAll_def getStore_loaded[OF s2] Range_c_loaded[OF s2] f2
        saveToFile_def os_Create_def file_Write_def path_components_def is_sep_def
        put_store_def example_json_sel)
  then have e: "the (fst (snd (GetAll example_json example_unmarshal [] [(''k'', 7)] ''b''
        (fst (Get example_json example_unmarshal 6 ''b'' ''k'' [] example_world))))) ''k'' = None"
    using t6 by auto
  from example_set_ok m a b c d e show ?thesis by simp
qed

text \<open>
  C3 as stated fails at its boundary: with the elapsed time equal to the time-to-live
  (set at 0 with a time-to-live of 5, read at 5) \<open>Get\<close> still finds the entry, since an
  entry expires only once the clock is after its expiration.
\<close>

theorem get_at_ttl_boundary_still_found:
  "snd (Set example_json 0 ''b'' 5 ''k'' ''v'' (NewCacher ''d'' (Dir []))) = None
   \<and> (5::int) - 0 \<ge> 5
   \<and> snd (Get example_json example_unmarshal 5 ''b'' ''k'' []
        (fst (Set example_json 0 ''b'' 5 ''k'' ''v'' (NewCacher ''d'' (Dir [])))))
      = (''v'', True, None)"
  unfolding example_world_def[symmetric]
  by (simp add: example_set_ok[unfolded example_world_def[symmetric]] Get_def
      getStore_loaded[OF example_world_stores] expired_def After_def example_json_sel
      example_unmarshal_def)

subsection \<open>C4: set, then get\<close>

text \<open>
  C4. After a successful \<open>Set\<close> with a positive time-to-live of a value \<open>v\<close> that is
  structurally encodable (\<open>json.Marshal\<close> encodes it and \<open>json.Unmarshal\<close> of the encoding
  into the caller's variable gives \<open>v\<close> back), a \<open>Get\<close> before the time-to-live has elapsed, in
  particular an immediate one, returns found with the value \<open>v\<close> and no error, and changes
  nothing.
\<close>

theorem set_then_get_round_trip:
  assumes "snd (Set js t0 b ttl k v w) = None" and "0 < ttl" and "0 \<le> e" and "e < ttl"
    and "Marshal js v = Inr bts" and "um bts out = (v, None)"
  shows "Get js um (t0 + e) b k out (fst (Set js t0 b ttl k v w))
           = (fst (Set js t0 b ttl k v w), v, True, None)"
proof -
  obtain w1 store where g: "getStore js b w = (w1, Inr store)"
    using Set_ok_getStore[OF assms(1)] by blast
  let ?item = "\<lparr>Value = v, Expiration = Some (t0 + ttl)\<rparr>"
  have "Get js um (t0 + e) b k out (fst (Set js t0 b ttl k v w))
           = (fst (Set js t0 b ttl k v w), fst (um bts out), True, snd (um bts out))"
    by (rule Get_live[OF Set_stores[OF g], where item = ?item])
       (use assms in \<open>simp_all add: expired_def After_def\<close>)
  then show ?thesis by (simp add: assms(6))
qed

text \<open>The theorem at the example, with no time elapsed.\<close>

theorem set_then_get_round_trip_witness:
  "snd (Set example_json 0 ''b'' 5 ''k'' ''v'' (NewCacher ''d'' (Dir []))) = None
   \<and> (0::int) < 5 \<and> (0::int) \<le> 0 \<and> Marshal example_json ''v'' = Inr ''v''
   \<and> example_unmarshal ''v'' [] = (''v'', None)
   \<and> Get example_json example_unmarshal (0 + 0) ''b'' ''k'' [] example_world
       = (example_world, ''v'', True, None)"
proof -
  have m: "Marshal example_json ''v'' = Inr ''v''" by (simp add: example_json_sel)
  have u: "example_unmarshal ''v'' [] = (''v'', None)" by (simp add: example_unmarshal_def)
  have "Get example_json example_unmarshal (0 + 0) ''b'' ''k'' []
          (fst (Set example_json 0 ''b'' 5 ''k'' ''v'' (NewCacher ''d'' (Dir []))))
        = (fst (Set example_json 0 ''b'' 5 ''k'' ''v'' (NewCacher ''d'' (Dir []))), ''v'', True, None)"
    by (rule set_then_get_round_trip[where js = example_json and bts = "''v''" and v = "''v''"
          and um = example_unmarshal and out = "[]" and ttl = 5 and e = 0,
          OF example_set_ok _ _ _ m u]) simp_all
  with example_set_ok m u show ?thesis by (simp add: example_world_def)
qed

subsection \<open>C5: \<open>Range\<close>\<close>



subsection \<open>C6: \<open>RemoveAllBy\<close>\<close>

text \<open>
  C6 does not hold of the code. The walk of \<open>RemoveAllBy\<close> descends into subdirectories,
  but its walk function removes the path made of the cache directory and the base name of
  the file it is at, not the path of that file. With the cache directory \<open>d\<close> holding the
  bucket file \<open>d/sub/x.cache\<close> (written by a successful \<open>Set\<close> on the bucket \<open>sub/x\<close>) and a
  filter that accepts every name, \<open>RemoveAllBy\<close> tries to remove \<open>d/x.cache\<close>, which does
  not exist: it returns that failure and leaves the file system as it was, the matching
  file still in place. The registry is cleared all the same (\<open>RemoveAllBy_clears_registry\<close>),
  and on a cache directory that holds regular files only the deletion is as C6 says
  (\<open>RemoveAllBy_flat\<close>).
\<close>

theorem removeAllBy_misses_nested_file:
  "snd (Set example_json 0 ''sub/x'' 5 ''k'' ''v''
            (NewCacher ''d'' (Dir [(''d'', Dir [(''sub'', Dir [])])]))) = None
   \<and> fs subdir_world = Dir [(''d'', Dir [(''sub'', Dir [(''x.cache'', File ''v'')])])]
   \<and> RemoveAllBy 3 (\<lambda>name a. (True, a)) () subdir_world
       = Some (\<lparr>fs = Dir [(''d'', Dir [(''sub'', Dir [(''x.cache'', File ''v'')])])],
                cacher = (cacher subdir_world)\<lparr>stores := Map.empty\<rparr>\<rparr>, (),
               Some (Wrapped ''filecache: failed to remove file'' ENOENT))"
  by (simp add: subdir_world_set_ok subdir_world_fs subdir_world_dir RemoveAllBy_def
      filepath_Walk_def os_Lstat_def readDirNames_def path_components_def is_sep_def
      filepath_Join_def filepath_Base_def RemoveAllBy_fn_def strings_HasSuffix_def Ext_def
      os_Remove_def numeral_3_eq_3)

subsection \<open>C7: \<open>DeleteIf\<close>\<close>



subsection \<open>C8: entries without expiration\<close>

text \<open>
  C8. After a successful \<open>SetFrozen\<close> of a value that \<open>json.Marshal\<close> encodes, the entry
  has no expiration; \<open>Get\<close> at any time \<open>now\<close> and \<open>GetFrozen\<close> both return found with the
  stored value decoded into the caller's variable and leave the world as it is; and neither
  the loop of \<open>CleanBucket\<close> nor the loop of \<open>Range\<close>, at whatever times they run, evicts the
  entry.
\<close>

theorem frozen_entries_never_expire:
  assumes "snd (SetFrozen js b k v w) = None" and "Marshal js v = Inr bts"
  shows "Get js um now b k out (fst (SetFrozen js b k v w))
           = (fst (SetFrozen js b k v w), fst (um bts out), True, snd (um bts out))
       \<and> GetFrozen js um b k out (fst (SetFrozen js b k v w))
           = (fst (SetFrozen js b k v w), fst (um bts out), True, snd (um bts out))
       \<and> (\<exists>store. stores (cacher (fst (SetFrozen js b k v w))) b = Some store
            \<and> data store k = Some \<lparr>Value = v, Expiration = None\<rparr>
            \<and> CleanBucket_loop order (data store) k = Some \<lparr>Value = v, Expiration = None\<rparr>
            \<and> fst (Range_loop js um' zero f order' (data store) a) k
                = Some \<lparr>Value = v, Expiration = None\<rparr>)"
proof -
  obtain w1 store where g: "getStore js b w = (w1, Inr store)"
    using SetFrozen_ok_getStore[OF assms(1)] by blast
  let ?W1 = "fst (SetFrozen js b k v w)"
  let ?item = "\<lparr>Value = v, Expiration = None\<rparr>"
  let ?store1 = "store\<lparr>data := (data store)(k \<mapsto> ?item)\<rparr>"
  have s1: "stores (cacher ?W1) b = Some ?store1" by (rule SetFrozen_stores[OF g])
  have k1: "data ?store1 k = Some ?item" by simp
  have get: "Get js um now b k out ?W1 = (?W1, fst (um bts out), True, snd (um bts out))"
    by (rule Get_live[OF s1 k1]) (simp_all add: expired_def assms(2))
  have getf: "GetFrozen js um b k out ?W1 = (?W1, fst (um bts out), True, snd (um bts out))"
    by (rule GetFrozen_found[OF getStore_loaded[OF s1] k1]) (simp add: assms(2))
  have cl: "CleanBucket_loop order (data ?store1) k = Some ?item"
    by (rule CleanBucket_loop_frozen[where d = "data ?store1" and k = k, OF k1]) simp
  have rl: "fst (Range_loop js um' zero f order' (data ?store1) a) k = Some ?item"
    by (rule Range_loop_frozen[where d = "data ?store1" and k = k, OF k1]) simp
  from get getf s1 k1 cl rl show ?thesis by blast
qed

text \<open>The theorem at the example, read at time 1000000.\<close>

theorem frozen_entries_never_expire_witness:
  "snd (SetFrozen example_json ''b'' ''k'' ''v'' (NewCacher ''d'' (Dir []))) = None
   \<and> Marshal example_json ''v'' = Inr ''v''
   \<and> Get example_json example_unmarshal 1000000 ''b'' ''k'' [] frozen_world
       = (frozen_world, ''v'', True, None)
   \<and> GetFrozen example_json example_unmarshal ''b'' ''k'' [] frozen_world
       = (frozen_world, ''v'', True, None)"
proof -
  have m: "Marshal example_json ''v'' = Inr ''v''" by (simp add: example_json_sel)
  from frozen_entries_never_expire[OF example_setFrozen_ok m,
      where um = example_unmarshal and now = 1000000 and out = "[]" and order = "[]"
        and um' = example_unmarshal and zero = "[]" and f = "\<lambda>key val n. (True, Suc n)"
        and order' = "[]" and a = "0::nat",
      unfolded frozen_world_def[symmetric]] example_setFrozen_ok m
  show ?thesis by (simp add: example_unmarshal_def)
qed

subsection \<open>C9: \<open>GetTotalSize\<close>\<close>

text \<open>
  C9, as amended. When the cache directory resolves to a well-formed tree and the walk
  has fuel for its height, \<open>GetTotalSize\<close> returns, with no error and as an \<open>int64\<close>, the
  number of bytes in all regular files of that tree, at any depth and whatever their
  names; for an empty directory that is 0. Whenever \<open>GetTotalSize\<close> returns, the world
  (file system, registry and stores) is as it was.
\<close>

theorem getTotalSize_sums_the_tree:
  assumes "resolve (fs w) (path_components (dir (cacher w))) = Inr t" and "wf_node t"
    and "height t < n"
  shows "GetTotalSize n w = Some (w, of_nat (total_size t), None)
       \<and> (t = Dir [] \<longrightarrow> GetTotalSize n w = Some (w, 0, None))
       \<and> (GetTotalSize n' w' = Some (w'', sz, r) \<longrightarrow> w'' = w')"
  using GetTotalSize_total[OF assms] GetTotalSize_read_only[of n' w' w'' sz r]
  by auto

text \<open>
  The theorem at the example world, whose cache directory holds one file of one byte, and
  at a new cacher, whose cache directory is empty.
\<close>

theorem getTotalSize_sums_the_tree_witness:
  "resolve (fs example_world) (path_components (dir (cacher example_world)))
     = Inr (Dir [(''b.cache'', File ''v'')])
   \<and> wf_node (Dir [(''b.cache'', File ''v'')]) \<and> height (Dir [(''b.cache'', File ''v'')]) < 2
   \<and> GetTotalSize 2 example_world = Some (example_world, 1, None)
   \<and> resolve (fs (NewCacher ''d'' (Dir []) :: string world))
        (path_components (dir (cacher (NewCacher ''d'' (Dir []) :: string world)))) = Inr (Dir [])
   \<and> GetTotalSize 2 (NewCacher ''d'' (Dir []) :: string world)
        = Some (NewCacher ''d'' (Dir []), 0, None)"
proof -
  have r: "resolve (fs example_world) (path_components (dir (cacher example_world)))
     = Inr (Dir [(''b.cache'', File ''v'')])"
    by (simp add: example_world_fs example_world_dir path_components_def is_sep_def)
  have wf: "wf_node (Dir [(''b.cache'', File ''v'')])" by (simp add: valid_name_def)
  have h: "height (Dir [(''b.cache'', File ''v'')]) < 2" by simp
  have r0: "resolve (fs (NewCacher ''d'' (Dir []) :: string world))
        (path_components (dir (cacher (NewCacher ''d'' (Dir []) :: string world)))) = Inr (Dir [])"
    by (simp add: NewCacher_def os_MkdirAll_def path_components_def is_sep_def)
  have wf0: "wf_node (Dir [])" by simp
  have h0: "height (Dir []) < 2" by simp
  from getTotalSize_sums_the_tree[OF r wf h, THEN conjunct1]
    getTotalSize_sums_the_tree[OF r0 wf0 h0, THEN conjunct1] r wf h r0
  show ?thesis by simp
qed

text \<open>
  C9 as stated fails where it says "directly": with a bucket file of one byte in the cache
  directory and a file of five bytes in a subdirectory of it, the files directly in the
  cache directory hold one byte and \<open>GetTotalSize\<close> returns 6.
\<close>

theorem getTotalSize_counts_nested_files:
  "resolve (fs nested_world) (path_components (dir (cacher nested_world))) = Inr nested_dir
   \<and> direct_size nested_dir = 1
   \<and> GetTotalSize 3 nested_world = Some (nested_world, 6, None)"
proof -
  have r: "resolve (fs nested_world) (path_components (dir (cacher nested_world))) = Inr nested_dir"
    by (simp add: nested_world_sel path_components_def is_sep_def)
  have wf: "wf_node nested_dir" by (simp add: nested_dir_def valid_name_def)
  have h: "height nested_dir < 3" by (simp add: nested_dir_def)
  have t: "total_size nested_dir = 6" by (simp add: nested_dir_def)
  have d: "direct_size nested_dir = 1" by (simp add: nested_dir_def)
  from GetTotalSize_total[OF r wf h] r d t show ?thesis by simp
qed

subsection \<open>C10: \<open>GetFrozen\<close> and expired entries\<close>

text \<open>
  C10. For a key whose entry has an expiration strictly before \<open>now\<close> (so that the entry is
  expired at \<open>now\<close>), \<open>GetFrozen\<close> returns found with the stored value decoded into the
  caller's variable; the store it read is the store the registry holds afterwards, with
  the entry in it, and the file system is unchanged.
\<close>

theorem getFrozen_ignores_expiration:
  assumes "getStore js b w = (w1, Inr store)" and "data store k = Some item"
    and "Expiration item = Some e" and "e < now" and "Marshal js (Value item) = Inr bts"
  shows "expired now item
       \<and> GetFrozen js um b k out w = (w1, fst (um bts out), True, snd (um bts out))
       \<and> stores (cacher w1) b = Some store \<and> fs w1 = fs w"
  using assms GetFrozen_found[OF assms(1,2,5)] getStore_Inr[OF assms(1)]
  by (simp add: expired_def After_def)

text \<open>The theorem at the example: the entry expired at time 5 and is read at time 100.\<close>

theorem getFrozen_ignores_expiration_witness:
  "getStore example_json ''b'' example_world
     = (example_world, Inr \<lparr>filePath = ''d/b.cache'',
           data = [''k'' \<mapsto> \<lparr>Value = ''v'', Expiration = Some 5\<rparr>]\<rparr>)
   \<and> (5::int) < 100
   \<and> expired 100 \<lparr>Value = ''v'', Expiration = Some 5\<rparr>
   \<and> GetFrozen example_json example_unmarshal ''b'' ''k'' [] example_world
       = (example_world, ''v'', True, None)"
proof -
  have h: "getStore example_json ''b'' example_world
     = (example_world, Inr \<lparr>filePath = ''d/b.cache'',
           data = [''k'' \<mapsto> \<lparr>Value = ''v'', Expiration = Some 5\<rparr>]\<rparr>)"
    by (rule getStore_loaded[OF example_world_stores])
  have m: "Marshal example_json (Value \<lparr>Value = ''v'', Expiration = Some 5\<rparr>) = Inr ''v''"
    by (simp add: example_json_sel)
  from getFrozen_ignores_expiration[OF h _ _ _ m, of "''k''" 5 100 example_unmarshal "[]"] h
  show ?thesis by (simp add: example_unmarshal_def)
qed

end
